theory Spec2Isabelle
  imports Complex_Main
begin

section \<open>Instance data\<close>

text \<open>
  Two files build the same two-tier model. \<^verbatim>\<open>pyomo_lco_mini.py\<close> reads its instance from the
  module-level names \<^verbatim>\<open>DAYS\<close>, \<^verbatim>\<open>ROOMS\<close> and \<^verbatim>\<open>bookings\<close>;
  \<^verbatim>\<open>static_lco_model.py\<close> takes it as arguments. Python's unbounded \<^verbatim>\<open>int\<close> is
  \<^typ>\<open>int\<close>; prices, probabilities and solver values are floats in the source and are
  idealised as \<^typ>\<open>real\<close> here (no rounding is modelled). A \<^verbatim>\<open>dict\<close> is an association
  list in insertion order whose keys are distinct, looked up with \<^const>\<open>map_of\<close>.
\<close>

record BookingSpec =
  start_day :: int
  length_of_stay :: int
  price_per_night :: real
  show_prob :: real

text \<open>The module-level names of \<^verbatim>\<open>pyomo_lco_mini.py\<close>; a booking there is the tuple
  \<^verbatim>\<open>(start_day, length_of_stay, price_per_night, show_prob)\<close>.\<close>

record mini_globals =
  DAYS :: int
  ROOMS :: int
  bookings :: "(int \<times> (int \<times> int \<times> real \<times> real)) list"

definition days :: "mini_globals \<Rightarrow> int list" where
  "days g = [1 .. DAYS g]"

definition rooms :: "mini_globals \<Rightarrow> int list" where
  "rooms g = [1 .. ROOMS g]"

definition CAP :: "mini_globals \<Rightarrow> (int \<times> int) list" where
  "CAP g = map (\<lambda>d. (d, ROOMS g)) (days g)"

definition B :: "mini_globals \<Rightarrow> int list" where
  "B g = map fst (bookings g)"

text \<open>The twelve bookings both files ship with.\<close>

definition raw :: "(int \<times> (int \<times> int \<times> real \<times> real)) list" where
  "raw =
    [(1, (1, 2, 120, 0.92)), (2, (1, 3, 110, 0.85)), (3, (2, 2, 150, 0.90)),
     (4, (2, 3, 130, 0.80)), (5, (3, 2, 140, 0.88)), (6, (3, 3, 100, 0.83)),
     (7, (4, 2, 160, 0.87)), (8, (4, 2, 115, 0.78)), (9, (5, 1, 200, 0.95)),
     (10, (1, 1, 180, 0.90)), (11, (2, 1, 170, 0.82)), (12, (3, 1, 175, 0.89))]"

definition mini_module :: mini_globals where
  "mini_module = \<lparr>DAYS = 5, ROOMS = 10, bookings = raw\<rparr>"

definition build_default_bookings :: "(int \<times> BookingSpec) list" where
  "build_default_bookings =
     map (\<lambda>(b, (s, L, p, q)).
            (b, \<lparr>start_day = s, length_of_stay = L, price_per_night = p, show_prob = q\<rparr>)) raw"

section \<open>Errors\<close>

text \<open>
  Every exception the modelled code can raise is a value. Besides Python's own
  \<^verbatim>\<open>KeyError\<close>, these are the errors the modelling library raises while a component is
  built or a value is read: a parameter value outside its declared domain, an index outside
  a component's index set, a parameter read that has no value, a constraint rule whose
  result is a plain Python \<^verbatim>\<open>bool\<close> (a relation between two numbers), and the value of a
  variable that was never assigned one.
\<close>

datatype var = Var_a int | Var_y int int int | Var_w int

datatype error =
    KeyError int
  | ParamDomainError int
  | ParamIndexError int
  | ParamUndefined int
  | VarIndexError "int \<times> int \<times> int"
  | TrivialConstraint
  | NoValue var
  | NoSolver
  | BackendError string

section \<open>Stay days\<close>

text \<open>
  \<^verbatim>\<open>stay_days(bid)\<close> of the mini file: \<^verbatim>\<open>list(range(s, min(s + L, DAYS + 1)))\<close>, after
  the lookup \<^verbatim>\<open>bookings[bid]\<close>, which raises for an unknown id.
\<close>

definition stay_days :: "mini_globals \<Rightarrow> int \<Rightarrow> error + int list" where
  "stay_days g bid =
     (case map_of (bookings g) bid of
        None \<Rightarrow> Inl (KeyError bid)
      | Some (s, L, p, q) \<Rightarrow> Inr [s .. min (s + L) (DAYS g + 1) - 1])"

text \<open>Reading a parameter: an index without a value raises.\<close>

definition param :: "(int \<rightharpoonup> 'v) \<Rightarrow> int \<Rightarrow> error + 'v" where
  "param p i = (case p i of None \<Rightarrow> Inl (ParamUndefined i) | Some v \<Rightarrow> Inr v)"

text \<open>
  \<^verbatim>\<open>_stay_days(b)\<close> of the static builder (and \<^verbatim>\<open>_stay_days_local\<close> of its driver, the
  same body): \<^verbatim>\<open>[d for d in m.D if d >= s and d < s + L]\<close> with \<^verbatim>\<open>s\<close>, \<^verbatim>\<open>L\<close> read
  from the parameters \<^verbatim>\<open>m.start\<close>, \<^verbatim>\<open>m.length\<close>.
\<close>

definition static_stay_days ::
  "int list \<Rightarrow> (int \<rightharpoonup> int) \<Rightarrow> (int \<rightharpoonup> int) \<Rightarrow> int \<Rightarrow> error + int list" where
  "static_stay_days D start len b =
     (case param start b of
        Inl e \<Rightarrow> Inl e
      | Inr s \<Rightarrow>
         (case param len b of
            Inl e \<Rightarrow> Inl e
          | Inr L \<Rightarrow> Inr [d \<leftarrow> D. d \<ge> s \<and> d < s + L]))"

text \<open>The days of a stay where the lookup succeeded; the builders call the two functions
  above only at ids of their own booking set, where it does.\<close>

definition sdays :: "error + int list \<Rightarrow> int list" where
  "sdays res = (case res of Inl e \<Rightarrow> [] | Inr ds \<Rightarrow> ds)"

section \<open>The optimisation model\<close>

text \<open>
  A linear expression is a list of terms \<open>coefficient * variable\<close>; the empty list is the
  Python number \<^verbatim>\<open>0\<close> that \<^verbatim>\<open>sum\<close> returns for an empty generator. A constraint is
  \<open>lhs rel rhs + constant\<close>.
\<close>

type_synonym linexpr = "(real \<times> var) list"

datatype relop = LE | EQ | GE

datatype constr = Constr linexpr relop linexpr real

datatype sense = maximize | minimize

datatype status = OPTIMAL | INFEASIBLE | UNBOUNDED | ERROR

text \<open>
  The components the two builders attach to the model \<^verbatim>\<open>m\<close>. \<^verbatim>\<open>m.B\<close>, \<^verbatim>\<open>m.R\<close>, \<^verbatim>\<open>m.D\<close> are
  initialised from lists and keep their order; \<^verbatim>\<open>m.InStay\<close>, \<^verbatim>\<open>m.YIDX\<close>, \<^verbatim>\<open>m.ContPair\<close>
  are initialised from Python sets, of which only membership is used. An indexed constraint
  is a partial map: an index whose rule returned \<^verbatim>\<open>Constraint.Skip\<close> has no entry. The
  variables are \<^verbatim>\<open>m.a\<close> over \<^verbatim>\<open>m.B\<close>, \<^verbatim>\<open>m.y\<close> over \<^verbatim>\<open>m.YIDX\<close> and \<^verbatim>\<open>m.w\<close> over
  \<^verbatim>\<open>m.D\<close>; \<open>m_vals\<close> holds their current values (none before a solve).
  The mini file calls \<open>m_length\<close> \<^verbatim>\<open>m.len\<close>, \<open>m_Overbook\<close> \<^verbatim>\<open>m.OverbookSlack\<close> and
  \<open>m_RevExpr\<close> \<^verbatim>\<open>m.RevenueExpr\<close>.
\<close>

record lco_model =
  m_B :: "int list"
  m_R :: "int list"
  m_D :: "int list"
  m_start :: "int \<rightharpoonup> int"
  m_length :: "int \<rightharpoonup> int"
  m_price :: "int \<rightharpoonup> real"
  m_showp :: "int \<rightharpoonup> real"
  m_cap :: "int \<rightharpoonup> int"
  m_InStay :: "(int \<times> int) set"
  m_YIDX :: "(int \<times> int \<times> int) set"
  m_ContPair :: "(int \<times> int \<times> int) set"
  m_RoomExcl :: "int \<times> int \<rightharpoonup> constr"
  m_Assign :: "int \<times> int \<rightharpoonup> constr"
  m_Continuity :: "int \<times> int \<times> int \<rightharpoonup> constr"
  m_Overbook :: "int \<rightharpoonup> constr"
  m_RevExpr :: linexpr
  m_obj :: "(sense \<times> linexpr) option"
  m_RevenueFloor :: "constr option"
  m_vals :: "var \<rightharpoonup> real"

definition ConcreteModel :: lco_model where
  "ConcreteModel =
     \<lparr>m_B = [], m_R = [], m_D = [], m_start = Map.empty, m_length = Map.empty,
      m_price = Map.empty, m_showp = Map.empty, m_cap = Map.empty, m_InStay = {},
      m_YIDX = {}, m_ContPair = {}, m_RoomExcl = Map.empty, m_Assign = Map.empty,
      m_Continuity = Map.empty, m_Overbook = Map.empty, m_RevExpr = [], m_obj = None,
      m_RevenueFloor = None, m_vals = Map.empty\<rparr>"

text \<open>\<^verbatim>\<open>m.y[b, r, d]\<close>: the variable exists only at an index of \<^verbatim>\<open>m.YIDX\<close>.\<close>

definition y_ref :: "lco_model \<Rightarrow> int \<times> int \<times> int \<Rightarrow> error + var" where
  "y_ref m k =
     (case k of (b, r, d) \<Rightarrow>
        if k \<in> m_YIDX m then Inr (Var_y b r d) else Inl (VarIndexError k))"

text \<open>\<^verbatim>\<open>sum(... for i in xs)\<close> of terms whose construction may raise: the first error wins.\<close>

fun sum_terms :: "('i \<Rightarrow> error + real \<times> var) \<Rightarrow> 'i list \<Rightarrow> error + linexpr" where
  "sum_terms f [] = Inr []"
| "sum_terms f (i # xs) =
     (case f i of
        Inl e \<Rightarrow> Inl e
      | Inr t \<Rightarrow> (case sum_terms f xs of Inl e \<Rightarrow> Inl e | Inr ts \<Rightarrow> Inr (t # ts)))"

text \<open>
  \<^verbatim>\<open>Constraint(index, rule=...)\<close>: the rule runs at every index in order; an exception
  leaves the builder, \<^verbatim>\<open>Constraint.Skip\<close> (\<open>Inr None\<close>) leaves the index without a
  constraint.
\<close>

fun Constraint :: "'i list \<Rightarrow> ('i \<Rightarrow> error + constr option) \<Rightarrow> error + ('i \<rightharpoonup> constr)" where
  "Constraint [] rule = Inr Map.empty"
| "Constraint (i # idx) rule =
     (case rule i of
        Inl e \<Rightarrow> Inl e
      | Inr c \<Rightarrow>
         (case Constraint idx rule of
            Inl e \<Rightarrow> Inl e
          | Inr f \<Rightarrow> Inr (\<lambda>j. if j = i then c else f j)))"

subsection \<open>Constraint rules\<close>

text \<open>
  The four rules have the same bodies in both files (\<^verbatim>\<open>assign_if_accepted\<close> and
  \<^verbatim>\<open>overbook_slack\<close> are the mini file's names of \<^verbatim>\<open>assign_link\<close> and
  \<^verbatim>\<open>overbooking\<close>).

  \<^verbatim>\<open>room_excl\<close>: \<^verbatim>\<open>sum(m.y[b, r, d] for b in m.B if (b, d) in m.InStay) <= 1\<close>. When no
  booking stays on day \<^verbatim>\<open>d\<close> the sum is the number \<^verbatim>\<open>0\<close>, the rule returns the Python
  value \<^verbatim>\<open>True\<close>, and the library refuses it.
\<close>

definition room_excl :: "lco_model \<Rightarrow> int \<Rightarrow> int \<Rightarrow> error + constr option" where
  "room_excl m r d =
     (case sum_terms (\<lambda>b. map_sum id (Pair 1) (y_ref m (b, r, d)))
             [b \<leftarrow> m_B m. (b, d) \<in> m_InStay m] of
        Inl e \<Rightarrow> Inl e
      | Inr lhs \<Rightarrow> if lhs = [] then Inl TrivialConstraint else Inr (Some (Constr lhs LE [] 1)))"

text \<open>\<^verbatim>\<open>assign_link\<close>: skipped outside \<^verbatim>\<open>m.InStay\<close>, else
  \<^verbatim>\<open>sum(m.y[b, r, d] for r in m.R) == m.a[b]\<close>.\<close>

definition assign_link :: "lco_model \<Rightarrow> int \<Rightarrow> int \<Rightarrow> error + constr option" where
  "assign_link m b d =
     (if (b, d) \<notin> m_InStay m then Inr None
      else case sum_terms (\<lambda>r. map_sum id (Pair 1) (y_ref m (b, r, d))) (m_R m) of
             Inl e \<Rightarrow> Inl e
           | Inr lhs \<Rightarrow> Inr (Some (Constr lhs EQ [(1, Var_a b)] 0)))"

abbreviation assign_if_accepted :: "lco_model \<Rightarrow> int \<Rightarrow> int \<Rightarrow> error + constr option" where
  "assign_if_accepted \<equiv> assign_link"

text \<open>\<^verbatim>\<open>continuity\<close>: \<^verbatim>\<open>m.y[b, r, d] == m.y[b, r, d + 1]\<close>.\<close>

definition continuity :: "lco_model \<Rightarrow> int \<times> int \<times> int \<Rightarrow> error + constr option" where
  "continuity m k =
     (case k of (b, r, d) \<Rightarrow>
        (case y_ref m (b, r, d) of
           Inl e \<Rightarrow> Inl e
         | Inr v \<Rightarrow>
            (case y_ref m (b, r, d + 1) of
               Inl e \<Rightarrow> Inl e
             | Inr v' \<Rightarrow> Inr (Some (Constr [(1, v)] EQ [(1, v')] 0)))))"

text \<open>\<^verbatim>\<open>overbooking\<close>: \<^verbatim>\<open>m.w[d] >= exp_shows - m.cap[d]\<close> with
  \<^verbatim>\<open>exp_shows = sum(m.a[b] * m.showp[b] for b in m.B if (b, d) in m.InStay)\<close>.\<close>

definition overbooking :: "lco_model \<Rightarrow> int \<Rightarrow> error + constr option" where
  "overbooking m d =
     (case sum_terms (\<lambda>b. map_sum id (\<lambda>q. (q, Var_a b)) (param (m_showp m) b))
             [b \<leftarrow> m_B m. (b, d) \<in> m_InStay m] of
        Inl e \<Rightarrow> Inl e
      | Inr exp_shows \<Rightarrow>
         (case param (m_cap m) d of
            Inl e \<Rightarrow> Inl e
          | Inr c \<Rightarrow> Inr (Some (Constr [(1, Var_w d)] GE exp_shows (- real_of_int c)))))"

abbreviation overbook_slack :: "lco_model \<Rightarrow> int \<Rightarrow> error + constr option" where
  "overbook_slack \<equiv> overbooking"

text \<open>The revenue expression \<^verbatim>\<open>sum(m.a[b] * m.price[b] * m.length[b] for b in m.B)\<close>.\<close>

definition revenue_expr :: "lco_model \<Rightarrow> error + linexpr" where
  "revenue_expr m =
     sum_terms
       (\<lambda>b. case param (m_price m) b of
               Inl e \<Rightarrow> Inl e
             | Inr p \<Rightarrow>
                (case param (m_length m) b of
                   Inl e \<Rightarrow> Inl e
                 | Inr L \<Rightarrow> Inr (p * real_of_int L, Var_a b)))
       (m_B m)"

text \<open>
  The part both builders share from the constraints on: \<^verbatim>\<open>m.RoomExcl\<close>, \<^verbatim>\<open>m.Assign\<close>,
  \<^verbatim>\<open>m.Continuity\<close> (over the list \<open>cont\<close> that initialised \<^verbatim>\<open>m.ContPair\<close>), the
  overbooking constraints, the revenue expression and the Tier L2 objective, in the
  source's order.
\<close>

definition add_constraints ::
  "lco_model \<Rightarrow> (int \<times> int \<times> int) list \<Rightarrow> error + lco_model" where
  "add_constraints m cont =
     (case Constraint (List.product (m_R m) (m_D m)) (\<lambda>(r, d). room_excl m r d) of
        Inl e \<Rightarrow> Inl e
      | Inr c1 \<Rightarrow>
     (case Constraint (List.product (m_B m) (m_D m)) (\<lambda>(b, d). assign_link m b d) of
        Inl e \<Rightarrow> Inl e
      | Inr c2 \<Rightarrow>
     (case Constraint cont (continuity m) of
        Inl e \<Rightarrow> Inl e
      | Inr c3 \<Rightarrow>
     (case Constraint (m_D m) (overbooking m) of
        Inl e \<Rightarrow> Inl e
      | Inr c4 \<Rightarrow>
     (case revenue_expr m of
        Inl e \<Rightarrow> Inl e
      | Inr revenue \<Rightarrow>
          Inr (m\<lparr>m_RoomExcl := c1, m_Assign := c2, m_Continuity := c3, m_Overbook := c4,
                 m_RevExpr := revenue, m_obj := Some (maximize, revenue)\<rparr>))))))"

section \<open>The two model builders\<close>

text \<open>
  \<^verbatim>\<open>Param(index, initialize=init, within=domain)\<close>: every entry of the initialising dict
  is checked as it is stored, its key against the index set and its value against the
  domain (a parameter declared without \<^verbatim>\<open>within\<close> accepts any value).
\<close>

fun Param :: "int list \<Rightarrow> ('v \<Rightarrow> bool) \<Rightarrow> (int \<times> 'v) list \<Rightarrow> error + (int \<rightharpoonup> 'v)" where
  "Param idx domain_ok [] = Inr Map.empty"
| "Param idx domain_ok ((k, v) # init) =
     (if k \<notin> set idx then Inl (ParamIndexError k)
      else if \<not> domain_ok v then Inl (ParamDomainError k)
      else case Param idx domain_ok init of
             Inl e \<Rightarrow> Inl e
           | Inr p \<Rightarrow> Inr (\<lambda>j. if j = k then Some v else p j))"

text \<open>\<^verbatim>\<open>yidx = {(b, r, d) for (b, d) in in_stay for r in rooms}\<close>, the same in both files.\<close>

definition yidx :: "(int \<times> int) list \<Rightarrow> int list \<Rightarrow> (int \<times> int \<times> int) list" where
  "yidx instay rs = [(b, r, d). (b, d) \<leftarrow> instay, r \<leftarrow> rs]"

subsection \<open>\<^verbatim>\<open>build_model\<close> of \<^verbatim>\<open>pyomo_lco_mini.py\<close>\<close>

definition in_stay :: "mini_globals \<Rightarrow> (int \<times> int) list" where
  "in_stay g = [(b, d). b \<leftarrow> B g, d \<leftarrow> days g, d \<in> set (sdays (stay_days g b))]"

definition cont :: "mini_globals \<Rightarrow> (int \<times> int \<times> int) list" where
  "cont g =
     [(b, r, d). b \<leftarrow> B g, r \<leftarrow> rooms g, d \<leftarrow> days g,
        d \<in> set (sdays (stay_days g b)) \<and> d + 1 \<in> set (sdays (stay_days g b))]"

definition build_model :: "mini_globals \<Rightarrow> error + lco_model" where
  "build_model g =
     (let m = ConcreteModel\<lparr>m_B := B g, m_R := rooms g, m_D := days g\<rparr> in
      case Param (m_B m) (\<lambda>v. True) (map (\<lambda>(b, s, L, p, q). (b, s)) (bookings g)) of
        Inl e \<Rightarrow> Inl e
      | Inr start \<Rightarrow>
     (case Param (m_B m) (\<lambda>v. True) (map (\<lambda>(b, s, L, p, q). (b, L)) (bookings g)) of
        Inl e \<Rightarrow> Inl e
      | Inr len \<Rightarrow>
     (case Param (m_B m) (\<lambda>v. True) (map (\<lambda>(b, s, L, p, q). (b, p)) (bookings g)) of
        Inl e \<Rightarrow> Inl e
      | Inr price \<Rightarrow>
     (case Param (m_B m) (\<lambda>v. True) (map (\<lambda>(b, s, L, p, q). (b, q)) (bookings g)) of
        Inl e \<Rightarrow> Inl e
      | Inr showp \<Rightarrow>
     (case Param (m_D m) (\<lambda>v. True) (CAP g) of
        Inl e \<Rightarrow> Inl e
      | Inr cap \<Rightarrow>
          add_constraints
            (m\<lparr>m_start := start, m_length := len, m_price := price, m_showp := showp,
               m_cap := cap, m_InStay := set (in_stay g),
               m_YIDX := set (yidx (in_stay g) (rooms g)), m_ContPair := set (cont g)\<rparr>)
            (cont g))))))"

subsection \<open>\<^verbatim>\<open>build_static_lco_model\<close> of \<^verbatim>\<open>static_lco_model.py\<close>\<close>

text \<open>The helper sets are computed from the model under construction, which holds the
  sets and parameters at that point.\<close>

definition instay :: "lco_model \<Rightarrow> (int \<times> int) list" where
  "instay m =
     [(b, d). b \<leftarrow> m_B m, d \<leftarrow> m_D m,
        d \<in> set (sdays (static_stay_days (m_D m) (m_start m) (m_length m) b))]"

definition static_cont :: "lco_model \<Rightarrow> (int \<times> int \<times> int) list" where
  "static_cont m =
     [(b, r, d). b \<leftarrow> m_B m, r \<leftarrow> m_R m, d \<leftarrow> m_D m,
        (b, d) \<in> set (instay m) \<and> (b, d + 1) \<in> set (instay m)]"

text \<open>
  The arguments \<^verbatim>\<open>bookings\<close>, \<^verbatim>\<open>days\<close>, \<^verbatim>\<open>rooms\<close>, \<^verbatim>\<open>capacity_by_day\<close>; an
  \<^verbatim>\<open>Optional\<close> argument is an \<open>option\<close>, replaced when it is \<^verbatim>\<open>None\<close> by the default
  bookings and by \<^verbatim>\<open>{d: rooms for d in range(1, days + 1)}\<close>. \<^verbatim>\<open>m.start\<close> is declared
  \<^verbatim>\<open>within=m.D\<close>.
\<close>

definition bookings_or_default :: "(int \<times> BookingSpec) list option \<Rightarrow> (int \<times> BookingSpec) list" where
  "bookings_or_default bookings_arg =
     (case bookings_arg of None \<Rightarrow> build_default_bookings | Some x \<Rightarrow> x)"

definition capacity_or_default :: "(int \<times> int) list option \<Rightarrow> int \<Rightarrow> int \<Rightarrow> (int \<times> int) list" where
  "capacity_or_default capacity_by_day ndays nrooms =
     (case capacity_by_day of None \<Rightarrow> map (\<lambda>d. (d, nrooms)) [1 .. ndays] | Some c \<Rightarrow> c)"

definition build_static_lco_model ::
  "(int \<times> BookingSpec) list option \<Rightarrow> int \<Rightarrow> int \<Rightarrow> (int \<times> int) list option
     \<Rightarrow> error + lco_model" where
  "build_static_lco_model bookings_arg ndays nrooms capacity_by_day =
     (let bks = bookings_or_default bookings_arg;
          m = ConcreteModel\<lparr>m_D := [1 .. ndays], m_R := [1 .. nrooms], m_B := map fst bks\<rparr>
      in
      case Param (m_B m) (\<lambda>v. v \<in> set (m_D m)) (map (\<lambda>(b, spec). (b, start_day spec)) bks) of
        Inl e \<Rightarrow> Inl e
      | Inr start \<Rightarrow>
     (case Param (m_B m) (\<lambda>v. True) (map (\<lambda>(b, spec). (b, length_of_stay spec)) bks) of
        Inl e \<Rightarrow> Inl e
      | Inr len \<Rightarrow>
     (case Param (m_B m) (\<lambda>v. True) (map (\<lambda>(b, spec). (b, price_per_night spec)) bks) of
        Inl e \<Rightarrow> Inl e
      | Inr price \<Rightarrow>
     (case Param (m_B m) (\<lambda>v. True) (map (\<lambda>(b, spec). (b, show_prob spec)) bks) of
        Inl e \<Rightarrow> Inl e
      | Inr showp \<Rightarrow>
     (case Param (m_D m) (\<lambda>v. True) (capacity_or_default capacity_by_day ndays nrooms) of
        Inl e \<Rightarrow> Inl e
      | Inr cap \<Rightarrow>
         (let m1 = m\<lparr>m_start := start, m_length := len, m_price := price, m_showp := showp,
                      m_cap := cap\<rparr>;
              m2 = m1\<lparr>m_InStay := set (instay m1),
                       m_YIDX := set (yidx (instay m1) (m_R m1))\<rparr>;
              m3 = m2\<lparr>m_ContPair := set (static_cont m2)\<rparr>
          in add_constraints m3 (static_cont m2)))))))"

section \<open>The solve backend\<close>

text \<open>
  The solver is an external collaborator and a parameter of the model. \<^verbatim>\<open>SolverFactory(name)\<close>
  gives a solver object or raises; \<^verbatim>\<open>solver.solve(m)\<close> raises or returns a result, whose
  status is kept here, and leaves values on the model's variables: the second component is
  the values the variables hold after the call (the old ones where the backend loaded
  nothing).
\<close>

record solver_obj =
  available :: "error + bool"
  solve :: "lco_model \<Rightarrow> error + status \<times> (var \<rightharpoonup> real)"

text \<open>\<^verbatim>\<open>get_solver()\<close> of the mini file: the first of \<^verbatim>\<open>"highs"\<close>, \<^verbatim>\<open>"cbc"\<close> that is
  available; an exception while trying one is swallowed; none available raises.\<close>

fun get_solver_from :: "(string \<Rightarrow> error + solver_obj) \<Rightarrow> string list \<Rightarrow> error + solver_obj" where
  "get_solver_from SolverFactory [] = Inl NoSolver"
| "get_solver_from SolverFactory (name # names) =
     (case SolverFactory name of
        Inl e \<Rightarrow> get_solver_from SolverFactory names
      | Inr solver \<Rightarrow>
         (case available solver of
            Inl e \<Rightarrow> get_solver_from SolverFactory names
          | Inr ok \<Rightarrow> if ok then Inr solver else get_solver_from SolverFactory names))"

definition get_solver :: "(string \<Rightarrow> error + solver_obj) \<Rightarrow> error + solver_obj" where
  "get_solver SolverFactory = get_solver_from SolverFactory [''highs'', ''cbc'']"

section \<open>Reading values\<close>

text \<open>\<^verbatim>\<open>value(x)\<close> of a variable and of a linear expression: a variable without a value
  raises.\<close>

definition value_var :: "(var \<rightharpoonup> real) \<Rightarrow> var \<Rightarrow> error + real" where
  "value_var vals x = (case vals x of None \<Rightarrow> Inl (NoValue x) | Some r \<Rightarrow> Inr r)"

fun value_expr :: "(var \<rightharpoonup> real) \<Rightarrow> linexpr \<Rightarrow> error + real" where
  "value_expr vals [] = Inr 0"
| "value_expr vals ((c, x) # ts) =
     (case value_var vals x of
        Inl e \<Rightarrow> Inl e
      | Inr r \<Rightarrow> (case value_expr vals ts of Inl e \<Rightarrow> Inl e | Inr t \<Rightarrow> Inr (c * r + t)))"

text \<open>\<^verbatim>\<open>{d: float(value(m.w[d])) for d in m.D}\<close>.\<close>

fun slack_values :: "(var \<rightharpoonup> real) \<Rightarrow> int list \<Rightarrow> error + (int \<times> real) list" where
  "slack_values vals [] = Inr []"
| "slack_values vals (d # ds) =
     (case value_var vals (Var_w d) of
        Inl e \<Rightarrow> Inl e
      | Inr r \<Rightarrow> (case slack_values vals ds of Inl e \<Rightarrow> Inl e | Inr t \<Rightarrow> Inr ((d, r) # t)))"

section \<open>Solution extraction\<close>

text \<open>
  The room scan is the same loop nest in both drivers. Inner loop, for one room:
  \<^verbatim>\<open>if key not in m.YIDX or value(m.y[key]) <= 0.5: ok = False; break\<close>.
\<close>

fun days_ok :: "lco_model \<Rightarrow> int \<Rightarrow> int \<Rightarrow> int list \<Rightarrow> error + bool" where
  "days_ok m b r [] = Inr True"
| "days_ok m b r (d # ds) =
     (if (b, r, d) \<notin> m_YIDX m then Inr False
      else case value_var (m_vals m) (Var_y b r d) of
             Inl e \<Rightarrow> Inl e
           | Inr x \<Rightarrow> if x \<le> 0.5 then Inr False else days_ok m b r ds)"

text \<open>Outer loop: the first room that passes is taken (\<^verbatim>\<open>break\<close>); \<^verbatim>\<open>None\<close> when none does.\<close>

fun scan_rooms :: "lco_model \<Rightarrow> int \<Rightarrow> int list \<Rightarrow> int list \<Rightarrow> error + int option" where
  "scan_rooms m b sd [] = Inr None"
| "scan_rooms m b sd (r # rs) =
     (case days_ok m b r sd of
        Inl e \<Rightarrow> Inl e
      | Inr ok \<Rightarrow> if ok then Inr (Some r) else scan_rooms m b sd rs)"

text \<open>The mini driver's loop over \<^verbatim>\<open>m.B\<close>, appending \<^verbatim>\<open>(b, sdays, assigned_r)\<close> for
  every booking with \<^verbatim>\<open>value(m.a[b]) > 0.5\<close>.\<close>

fun assignments ::
  "mini_globals \<Rightarrow> lco_model \<Rightarrow> int list \<Rightarrow> error + (int \<times> int list \<times> int option) list" where
  "assignments g m [] = Inr []"
| "assignments g m (b # bs) =
     (case value_var (m_vals m) (Var_a b) of
        Inl e \<Rightarrow> Inl e
      | Inr x \<Rightarrow>
          if x > 0.5 then
            (case stay_days g b of
               Inl e \<Rightarrow> Inl e
             | Inr sd \<Rightarrow>
                (case scan_rooms m b sd (m_R m) of
                   Inl e \<Rightarrow> Inl e
                 | Inr assigned_r \<Rightarrow>
                    (case assignments g m bs of
                       Inl e \<Rightarrow> Inl e
                     | Inr rest \<Rightarrow> Inr ((b, sd, assigned_r) # rest))))
          else assignments g m bs)"

text \<open>The static driver: \<^verbatim>\<open>[int(b) for b in m.B if value(m.a[b]) > 0.5]\<close>, then the loop
  filling \<^verbatim>\<open>room_assignments[int(b)] = (chosen_room, sdays)\<close>.\<close>

fun accepted :: "lco_model \<Rightarrow> int list \<Rightarrow> error + int list" where
  "accepted m [] = Inr []"
| "accepted m (b # bs) =
     (case value_var (m_vals m) (Var_a b) of
        Inl e \<Rightarrow> Inl e
      | Inr x \<Rightarrow>
         (case accepted m bs of
            Inl e \<Rightarrow> Inl e
          | Inr rest \<Rightarrow> Inr (if x > 0.5 then b # rest else rest)))"

fun room_assignments_of ::
  "lco_model \<Rightarrow> int list \<Rightarrow> error + (int \<times> int option \<times> int list) list" where
  "room_assignments_of m [] = Inr []"
| "room_assignments_of m (b # bs) =
     (case static_stay_days (m_D m) (m_start m) (m_length m) b of
        Inl e \<Rightarrow> Inl e
      | Inr sd \<Rightarrow>
         (case scan_rooms m b sd (m_R m) of
            Inl e \<Rightarrow> Inl e
          | Inr chosen_room \<Rightarrow>
             (case room_assignments_of m bs of
                Inl e \<Rightarrow> Inl e
              | Inr rest \<Rightarrow> Inr ((b, chosen_room, sd) # rest))))"

text \<open>The result dict of \<^verbatim>\<open>run_two_tier_demo\<close> and the \<^verbatim>\<open>LCOResult\<close> of
  \<^verbatim>\<open>solve_two_tier_lco\<close>.\<close>

record demo_result =
  r_Z2 :: real
  r_slack_sum :: real
  r_daily_slack :: "(int \<times> real) list"
  r_accepted_bookings :: "(int \<times> int list \<times> int option) list"

record LCOResult =
  revenue_L2 :: real
  slack_L3 :: real
  accepted_bookings :: "int list"
  room_assignments :: "(int \<times> int option \<times> int list) list"
  slack_by_day :: "(int \<times> real) list"

text \<open>The statements after the second solve of \<^verbatim>\<open>run_two_tier_demo\<close>, up to the result
  (printing left out), and those of \<^verbatim>\<open>solve_two_tier_lco\<close>. Neither takes a solver.\<close>

definition demo_extract :: "mini_globals \<Rightarrow> lco_model \<Rightarrow> real \<Rightarrow> error + demo_result" where
  "demo_extract g m Z =
     (case slack_values (m_vals m) (m_D m) of
        Inl e \<Rightarrow> Inl e
      | Inr ds \<Rightarrow>
         (case assignments g m (m_B m) of
            Inl e \<Rightarrow> Inl e
          | Inr asg \<Rightarrow>
              Inr \<lparr>r_Z2 = Z, r_slack_sum = sum_list (map snd ds), r_daily_slack = ds,
                   r_accepted_bookings = asg\<rparr>))"

definition static_extract :: "lco_model \<Rightarrow> real \<Rightarrow> error + LCOResult" where
  "static_extract m Z =
     (case slack_values (m_vals m) (m_D m) of
        Inl e \<Rightarrow> Inl e
      | Inr ds \<Rightarrow>
         (case accepted m (m_B m) of
            Inl e \<Rightarrow> Inl e
          | Inr acc \<Rightarrow>
             (case room_assignments_of m acc of
                Inl e \<Rightarrow> Inl e
              | Inr ras \<Rightarrow>
                  Inr \<lparr>revenue_L2 = Z, slack_L3 = sum_list (map snd ds),
                       accepted_bookings = acc, room_assignments = ras,
                       slack_by_day = ds\<rparr>)))"

section \<open>The two-tier drivers\<close>

text \<open>
  Both drivers return, next to their outcome, the models they handed to \<^verbatim>\<open>solve\<close>, in
  call order and as they were at the call. The three statements between the solves are
  \<^verbatim>\<open>m.RevenueFloor = Constraint(expr=m.RevExpr >= Z2 - eps)\<close> (refused when the revenue
  expression is a plain number), \<^verbatim>\<open>m.del_component(m.obj)\<close> and
  \<^verbatim>\<open>m.obj = Objective(expr=sum(m.w[d] for d in m.D), sense=minimize)\<close>. The status a
  solve returns (\<^verbatim>\<open>res2\<close>, \<^verbatim>\<open>res3\<close>; \<^verbatim>\<open>res_L2\<close>, \<^verbatim>\<open>res_L3\<close>) is bound and never read.
\<close>

definition default_eps :: real where
  "default_eps = 1 / 1000000"

definition run_two_tier_demo ::
  "(string \<Rightarrow> error + solver_obj) \<Rightarrow> mini_globals \<Rightarrow> real
     \<Rightarrow> lco_model list \<times> (error + demo_result)" where
  "run_two_tier_demo SolverFactory g eps =
     (case build_model g of
        Inl e \<Rightarrow> ([], Inl e)
      | Inr m \<Rightarrow>
     (case get_solver SolverFactory of
        Inl e \<Rightarrow> ([], Inl e)
      | Inr solver \<Rightarrow>
     (case solve solver m of
        Inl e \<Rightarrow> ([m], Inl e)
      | Inr (res2, vals2) \<Rightarrow>
     (case value_expr vals2 (m_RevExpr m) of
        Inl e \<Rightarrow> ([m], Inl e)
      | Inr Z \<Rightarrow>
          if m_RevExpr m = [] then ([m], Inl TrivialConstraint)
          else
            (let m1 = m\<lparr>m_vals := vals2\<rparr>;
                 m2 = m1\<lparr>m_RevenueFloor := Some (Constr (m_RevExpr m1) GE [] (Z - eps))\<rparr>;
                 m3 = m2\<lparr>m_obj := None\<rparr>;
                 m4 = m3\<lparr>m_obj := Some (minimize, map (\<lambda>d. (1, Var_w d)) (m_D m3))\<rparr>
             in case solve solver m4 of
                  Inl e \<Rightarrow> ([m, m4], Inl e)
                | Inr (res3, vals3) \<Rightarrow>
                    ([m, m4], demo_extract g (m4\<lparr>m_vals := vals3\<rparr>) Z))))))"

definition solve_two_tier_lco ::
  "(string \<Rightarrow> error + solver_obj) \<Rightarrow> (int \<times> BookingSpec) list option \<Rightarrow> int \<Rightarrow> int
     \<Rightarrow> (int \<times> int) list option \<Rightarrow> string \<Rightarrow> real
     \<Rightarrow> lco_model list \<times> (error + LCOResult)" where
  "solve_two_tier_lco SolverFactory bookings_arg ndays nrooms capacity_by_day solver_name
       revenue_floor_tolerance =
     (case build_static_lco_model bookings_arg ndays nrooms capacity_by_day of
        Inl e \<Rightarrow> ([], Inl e)
      | Inr m \<Rightarrow>
     (case SolverFactory solver_name of
        Inl e \<Rightarrow> ([], Inl e)
      | Inr opt \<Rightarrow>
     (case solve opt m of
        Inl e \<Rightarrow> ([m], Inl e)
      | Inr (res_L2, vals2) \<Rightarrow>
     (case value_expr vals2 (m_RevExpr m) of
        Inl e \<Rightarrow> ([m], Inl e)
      | Inr Z \<Rightarrow>
          if m_RevExpr m = [] then ([m], Inl TrivialConstraint)
          else
            (let m1 = m\<lparr>m_vals := vals2\<rparr>;
                 m2 = m1\<lparr>m_RevenueFloor :=
                           Some (Constr (m_RevExpr m1) GE [] (Z - revenue_floor_tolerance))\<rparr>;
                 m3 = m2\<lparr>m_obj := None\<rparr>;
                 m4 = m3\<lparr>m_obj := Some (minimize, map (\<lambda>d. (1, Var_w d)) (m_D m3))\<rparr>
             in case solve opt m4 of
                  Inl e \<Rightarrow> ([m, m4], Inl e)
                | Inr (res_L3, vals3) \<Rightarrow>
                    ([m, m4], static_extract (m4\<lparr>m_vals := vals3\<rparr>) Z))))))"

section \<open>What a solution of the model is\<close>

text \<open>
  The reading of the model the solver works with: a valuation of the variables is feasible
  when every variable lies in its declared domain (\<^verbatim>\<open>Binary\<close> for \<^verbatim>\<open>m.a\<close> and \<^verbatim>\<open>m.y\<close>,
  \<^verbatim>\<open>NonNegativeReals\<close> for \<^verbatim>\<open>m.w\<close>) and every constraint present in the model holds.
\<close>

definition eval_expr :: "(var \<Rightarrow> real) \<Rightarrow> linexpr \<Rightarrow> real" where
  "eval_expr v e = sum_list (map (\<lambda>(c, x). c * v x) e)"

fun holds :: "(var \<Rightarrow> real) \<Rightarrow> constr \<Rightarrow> bool" where
  "holds v (Constr lhs LE rhs c) = (eval_expr v lhs \<le> eval_expr v rhs + c)"
| "holds v (Constr lhs EQ rhs c) = (eval_expr v lhs = eval_expr v rhs + c)"
| "holds v (Constr lhs GE rhs c) = (eval_expr v lhs \<ge> eval_expr v rhs + c)"

definition constraints :: "lco_model \<Rightarrow> constr set" where
  "constraints m =
     ran (m_RoomExcl m) \<union> ran (m_Assign m) \<union> ran (m_Continuity m) \<union> ran (m_Overbook m)
       \<union> set_option (m_RevenueFloor m)"

definition feasible :: "lco_model \<Rightarrow> (var \<Rightarrow> real) \<Rightarrow> bool" where
  "feasible m v \<longleftrightarrow>
     (\<forall>b \<in> set (m_B m). v (Var_a b) = 0 \<or> v (Var_a b) = 1) \<and>
     (\<forall>(b, r, d) \<in> m_YIDX m. v (Var_y b r d) = 0 \<or> v (Var_y b r d) = 1) \<and>
     (\<forall>d \<in> set (m_D m). 0 \<le> v (Var_w d)) \<and>
     (\<forall>c \<in> constraints m. holds v c)"

section \<open>Declared variables\<close>

text \<open>\<^verbatim>\<open>m.a = Var(m.B)\<close>, \<^verbatim>\<open>m.y = Var(m.YIDX)\<close>, \<^verbatim>\<open>m.w = Var(m.D)\<close>: a variable exists
  exactly at the indices of its index set.\<close>

definition declared :: "lco_model \<Rightarrow> var set" where
  "declared m =
     Var_a ` set (m_B m) \<union> (\<lambda>(b, r, d). Var_y b r d) ` m_YIDX m \<union> Var_w ` set (m_D m)"

section \<open>The models the builders hand to the constraint stage\<close>

text \<open>
  Both builders first attach sets, parameters and helper sets, and then the constraints.
  The model at that intermediate point, when no parameter was refused, is named here so
  that the builders can be described as \<open>add_constraints\<close> applied to it.
\<close>

definition mini_pre :: "mini_globals \<Rightarrow> lco_model" where
  "mini_pre g =
     ConcreteModel
       \<lparr>m_B := B g, m_R := rooms g, m_D := days g,
        m_start := map_of (map (\<lambda>(b, s, L, p, q). (b, s)) (bookings g)),
        m_length := map_of (map (\<lambda>(b, s, L, p, q). (b, L)) (bookings g)),
        m_price := map_of (map (\<lambda>(b, s, L, p, q). (b, p)) (bookings g)),
        m_showp := map_of (map (\<lambda>(b, s, L, p, q). (b, q)) (bookings g)),
        m_cap := map_of (CAP g), m_InStay := set (in_stay g),
        m_YIDX := set (yidx (in_stay g) (rooms g)), m_ContPair := set (cont g)\<rparr>"

definition static_params ::
  "(int \<times> BookingSpec) list \<Rightarrow> int \<Rightarrow> int \<Rightarrow> (int \<times> int) list \<Rightarrow> lco_model" where
  "static_params bks ndays nrooms cbd =
     ConcreteModel
       \<lparr>m_D := [1 .. ndays], m_R := [1 .. nrooms], m_B := map fst bks,
        m_start := map_of (map (\<lambda>(b, spec). (b, start_day spec)) bks),
        m_length := map_of (map (\<lambda>(b, spec). (b, length_of_stay spec)) bks),
        m_price := map_of (map (\<lambda>(b, spec). (b, price_per_night spec)) bks),
        m_showp := map_of (map (\<lambda>(b, spec). (b, show_prob spec)) bks),
        m_cap := map_of cbd\<rparr>"

definition static_pre ::
  "(int \<times> BookingSpec) list \<Rightarrow> int \<Rightarrow> int \<Rightarrow> (int \<times> int) list \<Rightarrow> lco_model" where
  "static_pre bks ndays nrooms cbd =
     (let m1 = static_params bks ndays nrooms cbd in
      m1\<lparr>m_InStay := set (instay m1), m_YIDX := set (yidx (instay m1) (m_R m1)),
         m_ContPair := set (static_cont m1)\<rparr>)"

section \<open>Vocabulary of the claims\<close>

text \<open>
  Day \<open>d\<close> is a stay day of a booking when the stay-day function returned a list that
  holds it. In a valuation a booking occupies exactly one room of a list on a day when one
  assignment variable is 1 and all others are 0, and no room when all are 0.
\<close>

abbreviation stays :: "error + int list \<Rightarrow> int \<Rightarrow> bool" where
  "stays res d \<equiv> (\<exists>ds. res = Inr ds \<and> d \<in> set ds)"

definition occupies_one_room :: "(var \<Rightarrow> real) \<Rightarrow> int list \<Rightarrow> int \<Rightarrow> int \<Rightarrow> bool" where
  "occupies_one_room v rs b d \<longleftrightarrow>
     (\<exists>r \<in> set rs. v (Var_y b r d) = 1 \<and> (\<forall>r' \<in> set rs. r' \<noteq> r \<longrightarrow> v (Var_y b r' d) = 0))"

definition occupies_no_room :: "(var \<Rightarrow> real) \<Rightarrow> int list \<Rightarrow> int \<Rightarrow> int \<Rightarrow> bool" where
  "occupies_no_room v rs b d \<longleftrightarrow> (\<forall>r \<in> set rs. v (Var_y b r d) = 0)"

text \<open>A booking occupies the same single room on all days of a set when one room carries
  value 1 and every other room value 0 on each of them.\<close>

definition same_single_room :: "(var \<Rightarrow> real) \<Rightarrow> int list \<Rightarrow> int \<Rightarrow> int set \<Rightarrow> bool" where
  "same_single_room v rs b ds \<longleftrightarrow>
     (\<exists>r \<in> set rs. \<forall>d \<in> ds.
         v (Var_y b r d) = 1 \<and> (\<forall>r' \<in> set rs. r' \<noteq> r \<longrightarrow> v (Var_y b r' d) = 0))"



text \<open>The model as the drivers leave it after the three statements between the solves:
  the values of the first solve, the revenue floor, the slack objective.\<close>

definition tier_L3_model :: "lco_model \<Rightarrow> (var \<rightharpoonup> real) \<Rightarrow> real \<Rightarrow> real \<Rightarrow> lco_model" where
  "tier_L3_model m vals Z eps =
     m\<lparr>m_vals := vals,
       m_RevenueFloor := Some (Constr (m_RevExpr m) GE [] (Z - eps)),
       m_obj := Some (minimize, map (\<lambda>d. (1, Var_w d)) (m_D m))\<rparr>"

text \<open>The same solver object with the statuses it returns replaced through \<open>f\<close>; its
  availability, its exceptions and the values it leaves are unchanged.\<close>

definition with_status :: "(status \<Rightarrow> status) \<Rightarrow> solver_obj \<Rightarrow> solver_obj" where
  "with_status f s = s\<lparr>solve := (\<lambda>m. map_sum id (\<lambda>(st, vals). (f st, vals)) (solve s m))\<rparr>"

section \<open>What extraction reads off a valuation\<close>

text \<open>A variable's value is above one half (a variable without a value is not), and a room
  fits a booking on a list of days when, on each of them, the assignment variable exists
  and its value is above one half.\<close>

definition above_half :: "(var \<rightharpoonup> real) \<Rightarrow> var \<Rightarrow> bool" where
  "above_half vals x \<longleftrightarrow> (\<exists>r. vals x = Some r \<and> r > 0.5)"

definition room_fits :: "lco_model \<Rightarrow> int \<Rightarrow> int list \<Rightarrow> int \<Rightarrow> bool" where
  "room_fits m b sd r \<longleftrightarrow>
     (\<forall>d \<in> set sd. (b, r, d) \<in> m_YIDX m \<and> above_half (m_vals m) (Var_y b r d))"

section \<open>A small instance\<close>

text \<open>
  Three days, two rooms, two bookings; booking 2 starts on day 2 and lasts four nights, so
  its stay runs past the horizon. The same instance in the shape each file takes it.
\<close>

definition ex_globals :: mini_globals where
  "ex_globals = \<lparr>DAYS = 3, ROOMS = 2, bookings = [(1, (1, 2, 100, 0.9)), (2, (2, 4, 80, 0.5))]\<rparr>"

definition ex_bookings :: "(int \<times> BookingSpec) list" where
  "ex_bookings =
     [(1, \<lparr>start_day = 1, length_of_stay = 2, price_per_night = 100, show_prob = 0.9\<rparr>),
      (2, \<lparr>start_day = 2, length_of_stay = 4, price_per_night = 80, show_prob = 0.5\<rparr>)]"

text \<open>A valuation for that instance: both bookings accepted, booking \<open>b\<close> in room \<open>b\<close> on
  each of its days, no slack.\<close>

definition ex_valuation :: "var \<Rightarrow> real" where
  "ex_valuation x = (case x of Var_a b \<Rightarrow> 1 | Var_y b r d \<Rightarrow> (if b = r then 1 else 0) | Var_w d \<Rightarrow> 0)"

text \<open>The same instance with a third booking that starts on day 7, after the horizon.\<close>

definition ex_late_globals :: mini_globals where
  "ex_late_globals = ex_globals\<lparr>bookings := bookings ex_globals @ [(3, (7, 1, 60, 0.7))]\<rparr>"

definition ex_late_bookings :: "(int \<times> BookingSpec) list" where
  "ex_late_bookings =
     ex_bookings @ [(3, \<lparr>start_day = 7, length_of_stay = 1, price_per_night = 60, show_prob = 0.7\<rparr>)]"


definition ex_zero_bookings :: "(int \<times> BookingSpec) list" where
  "ex_zero_bookings =
     ex_bookings @ [(3, \<lparr>start_day = 2, length_of_stay = 0, price_per_night = 60, show_prob = 0.7\<rparr>)]"

text \<open>A backend that is available and answers every solve with status \<open>OPTIMAL\<close> and the
  valuation above, and a factory that returns it under every name.\<close>

definition ex_backend :: solver_obj where
  "ex_backend = \<lparr>available = Inr True, solve = (\<lambda>m. Inr (OPTIMAL, \<lambda>x. Some (ex_valuation x)))\<rparr>"

definition ex_factory :: "string \<Rightarrow> error + solver_obj" where
  "ex_factory name = Inr ex_backend"

text \<open>Three backends whose solve fails: one returns status \<open>INFEASIBLE\<close> and leaves the
  value 0 on every variable, one raises, one returns \<open>INFEASIBLE\<close> and loads nothing
  (the variables keep the values they had).\<close>

definition ex_failing_backend :: solver_obj where
  "ex_failing_backend = \<lparr>available = Inr True, solve = (\<lambda>m. Inr (INFEASIBLE, \<lambda>x. Some 0))\<rparr>"

definition ex_failing_factory :: "string \<Rightarrow> error + solver_obj" where
  "ex_failing_factory name = Inr ex_failing_backend"

definition ex_raising_backend :: solver_obj where
  "ex_raising_backend =
     \<lparr>available = Inr True, solve = (\<lambda>m. Inl (BackendError ''no feasible solution''))\<rparr>"

definition ex_raising_factory :: "string \<Rightarrow> error + solver_obj" where
  "ex_raising_factory name = Inr ex_raising_backend"

definition ex_silent_backend :: solver_obj where
  "ex_silent_backend = \<lparr>available = Inr True, solve = (\<lambda>m. Inr (INFEASIBLE, m_vals m))\<rparr>"

definition ex_silent_factory :: "string \<Rightarrow> error + solver_obj" where
  "ex_silent_factory name = Inr ex_silent_backend"

text \<open>A valuation that accepts every booking and gives every assignment variable the value
  one half, so that no room passes the test of extraction; and the two drivers run on the
  small instance with the backend that answers \<open>OPTIMAL\<close>.\<close>

definition ex_split_vals :: "var \<rightharpoonup> real" where
  "ex_split_vals x = Some (case x of Var_a b \<Rightarrow> 1 | Var_y b r d \<Rightarrow> 1 / 2 | Var_w d \<Rightarrow> 0)"

definition ex_demo_run :: "lco_model list \<times> (error + demo_result)" where
  "ex_demo_run = run_two_tier_demo ex_factory ex_globals default_eps"

definition ex_static_run :: "lco_model list \<times> (error + LCOResult)" where
  "ex_static_run = solve_two_tier_lco ex_factory (Some ex_bookings) 3 2 None ''highs'' default_eps"




text \<open>A backend that refuses every model whose objective is a \<open>minimize\<close> and that has no
  revenue floor, and answers every other model as the backend above does.\<close>

definition ex_guarded_backend :: solver_obj where
  "ex_guarded_backend =
     \<lparr>available = Inr True,
      solve = (\<lambda>m. case m_obj m of
                     Some (minimize, e) \<Rightarrow>
                       (case m_RevenueFloor m of
                          None \<Rightarrow> Inl (BackendError ''slack objective without revenue floor'')
                        | Some c \<Rightarrow> Inr (OPTIMAL, \<lambda>x. Some (ex_valuation x)))
                   | _ \<Rightarrow> Inr (OPTIMAL, \<lambda>x. Some (ex_valuation x)))\<rparr>"

definition ex_guarded_factory :: "string \<Rightarrow> error + solver_obj" where
  "ex_guarded_factory name = Inr ex_guarded_backend"

section \<open>Auxiliary facts\<close>

subsection \<open>Stay days as intervals\<close>

lemma upto_from_1: "[1 .. n] = (if 1 \<le> n then 1 # [2 .. n] else [])"
  by (simp add: upto.simps)

lemma filter_upto_interval:
  "[d \<leftarrow> [a .. b]. lo \<le> d \<and> d \<le> hi] = [max a lo .. min b hi]"
proof (rule sorted_distinct_set_unique)
  show "sorted [d \<leftarrow> [a .. b]. lo \<le> d \<and> d \<le> hi]" by (simp add: sorted_wrt_filter)
  show "distinct [d \<leftarrow> [a .. b]. lo \<le> d \<and> d \<le> hi]" by simp
  show "sorted [max a lo .. min b hi]" by simp
  show "distinct [max a lo .. min b hi]" by simp
  show "set [d \<leftarrow> [a .. b]. lo \<le> d \<and> d \<le> hi] = set [max a lo .. min b hi]" by auto
qed

lemma stay_days_mini:
  assumes "map_of (bookings g) bid = Some (s, L, p, q)"
  shows "stay_days g bid = Inr [s .. min (s + L - 1) (DAYS g)]"
proof -
  have "min (s + L) (DAYS g + 1) - 1 = min (s + L - 1) (DAYS g)" by simp
  with assms show ?thesis by (simp add: stay_days_def)
qed

lemma stay_days_static:
  assumes "start b = Some s" "len b = Some L"
  shows "static_stay_days [1 .. nd] start len b = Inr [max 1 s .. min (s + L - 1) nd]"
proof -
  have "[d \<leftarrow> [1 .. nd]. d \<ge> s \<and> d < s + L] = [d \<leftarrow> [1 .. nd]. s \<le> d \<and> d \<le> s + L - 1]"
    by (rule filter_cong) auto
  also have "\<dots> = [max 1 s .. min nd (s + L - 1)]" by (rule filter_upto_interval)
  finally show ?thesis using assms by (simp add: static_stay_days_def param_def min.commute)
qed

subsection \<open>The combinators\<close>

lemma sum_terms_Inr:
  "(\<And>i. i \<in> set xs \<Longrightarrow> f i = Inr (h i)) \<Longrightarrow> sum_terms f xs = Inr (map h xs)"
  by (induction xs) auto

lemma sum_terms_Inl:
  "sum_terms f xs = Inl e \<Longrightarrow> \<exists>i \<in> set xs. f i = Inl e"
  by (induction xs) (auto split: sum.splits)

lemma Constraint_lookup:
  "Constraint idx rule = Inr f \<Longrightarrow> f j = (if j \<in> set idx then projr (rule j) else None)"
proof (induction idx arbitrary: f)
  case Nil
  then show ?case by auto
next
  case (Cons i idx)
  then show ?case by (auto split: sum.splits)
qed


lemma Constraint_Inr_all:
  "Constraint idx rule = Inr f \<Longrightarrow> j \<in> set idx \<Longrightarrow> \<exists>c. rule j = Inr c"
  by (induction idx arbitrary: f) (auto split: sum.splits)

lemma Constraint_succeeds:
  "(\<And>j. j \<in> set idx \<Longrightarrow> \<exists>c. rule j = Inr c) \<Longrightarrow> \<exists>f. Constraint idx rule = Inr f"
proof (induction idx)
  case Nil
  then show ?case by simp
next
  case (Cons i idx)
  then obtain c where "rule i = Inr c" by auto
  moreover from Cons obtain f where "Constraint idx rule = Inr f" by auto
  ultimately show ?case by simp
qed

lemma Param_Inr:
  "Param idx ok init = Inr p \<Longrightarrow>
     p = map_of init \<and> fst ` set init \<subseteq> set idx \<and> (\<forall>(k, v) \<in> set init. ok v)"
proof (induction init arbitrary: p)
  case Nil
  then show ?case by simp
next
  case (Cons kv init)
  obtain k v where kv: "kv = (k, v)" by (cases kv)
  from Cons.prems kv obtain p' where p': "Param idx ok init = Inr p'"
    and p: "p = (\<lambda>j. if j = k then Some v else p' j)" and k: "k \<in> set idx" and v: "ok v"
    by (auto split: if_splits sum.splits)
  from Cons.IH[OF p'] p k v kv show ?case by auto
qed

lemma Param_succeeds:
  "fst ` set init \<subseteq> set idx \<Longrightarrow> (\<forall>(k, v) \<in> set init. ok v) \<Longrightarrow>
     Param idx ok init = Inr (map_of init)"
  by (induction init) (auto simp: fun_eq_iff)

lemma Param_Inl:
  "Param idx ok init = Inl e \<Longrightarrow>
     (\<exists>(k, v) \<in> set init. (k \<notin> set idx \<and> e = ParamIndexError k) \<or> (\<not> ok v \<and> e = ParamDomainError k))"
  by (induction init) (auto split: if_splits sum.splits)

subsection \<open>The constraint rules\<close>

lemma y_ref_in: "(b, r, d) \<in> m_YIDX m \<Longrightarrow> y_ref m (b, r, d) = Inr (Var_y b r d)"
  by (simp add: y_ref_def)

lemma room_excl_eq:
  assumes Y: "m_YIDX m = {(b, r, d). (b, d) \<in> m_InStay m \<and> r \<in> set (m_R m)}"
    and r: "r \<in> set (m_R m)"
  shows "room_excl m r d =
     (if [b \<leftarrow> m_B m. (b, d) \<in> m_InStay m] = [] then Inl TrivialConstraint
      else Inr (Some (Constr (map (\<lambda>b. (1, Var_y b r d)) [b \<leftarrow> m_B m. (b, d) \<in> m_InStay m])
                        LE [] 1)))"
proof -
  have "sum_terms (\<lambda>b. map_sum id (Pair 1) (y_ref m (b, r, d))) [b \<leftarrow> m_B m. (b, d) \<in> m_InStay m]
          = Inr (map (\<lambda>b. (1, Var_y b r d)) [b \<leftarrow> m_B m. (b, d) \<in> m_InStay m])"
    by (rule sum_terms_Inr) (use Y r in \<open>auto simp: y_ref_def\<close>)
  then show ?thesis by (simp add: room_excl_def)
qed

lemma assign_link_eq:
  assumes Y: "m_YIDX m = {(b, r, d). (b, d) \<in> m_InStay m \<and> r \<in> set (m_R m)}"
  shows "assign_link m b d =
     (if (b, d) \<notin> m_InStay m then Inr None
      else Inr (Some (Constr (map (\<lambda>r. (1, Var_y b r d)) (m_R m)) EQ [(1, Var_a b)] 0)))"
proof (cases "(b, d) \<in> m_InStay m")
  case True
  have "sum_terms (\<lambda>r. map_sum id (Pair 1) (y_ref m (b, r, d))) (m_R m)
          = Inr (map (\<lambda>r. (1, Var_y b r d)) (m_R m))"
    by (rule sum_terms_Inr) (use Y True in \<open>auto simp: y_ref_def\<close>)
  with True show ?thesis by (simp add: assign_link_def)
next
  case False
  then show ?thesis by (simp add: assign_link_def)
qed

lemma continuity_eq:
  assumes Y: "m_YIDX m = {(b, r, d). (b, d) \<in> m_InStay m \<and> r \<in> set (m_R m)}"
    and k: "r \<in> set (m_R m)" "(b, d) \<in> m_InStay m" "(b, d + 1) \<in> m_InStay m"
  shows "continuity m (b, r, d) = Inr (Some (Constr [(1, Var_y b r d)] EQ [(1, Var_y b r (d + 1))] 0))"
  using Y k by (simp add: continuity_def y_ref_def)

lemma overbooking_eq:
  assumes P: "\<forall>b \<in> set (m_B m). m_showp m b \<noteq> None"
  shows "overbooking m d =
     (case m_cap m d of
        None \<Rightarrow> Inl (ParamUndefined d)
      | Some c \<Rightarrow>
          Inr (Some (Constr [(1, Var_w d)] GE
                       (map (\<lambda>b. (the (m_showp m b), Var_a b)) [b \<leftarrow> m_B m. (b, d) \<in> m_InStay m])
                       (- real_of_int c))))"
proof -
  have "sum_terms (\<lambda>b. map_sum id (\<lambda>q. (q, Var_a b)) (param (m_showp m) b))
            [b \<leftarrow> m_B m. (b, d) \<in> m_InStay m]
          = Inr (map (\<lambda>b. (the (m_showp m b), Var_a b)) [b \<leftarrow> m_B m. (b, d) \<in> m_InStay m])"
    by (rule sum_terms_Inr) (use P in \<open>auto simp: param_def\<close>)
  then show ?thesis by (simp add: overbooking_def param_def split: option.splits)
qed

lemma revenue_expr_eq:
  assumes P: "\<forall>b \<in> set (m_B m). m_price m b \<noteq> None \<and> m_length m b \<noteq> None"
  shows "revenue_expr m =
     Inr (map (\<lambda>b. (the (m_price m b) * real_of_int (the (m_length m b)), Var_a b)) (m_B m))"
  unfolding revenue_expr_def
  by (rule sum_terms_Inr) (use P in \<open>auto simp: param_def\<close>)

lemma add_constraints_Inr:
  assumes Y: "m_YIDX m = {(b, r, d). (b, d) \<in> m_InStay m \<and> r \<in> set (m_R m)}"
    and C: "set cps \<subseteq> {(b, r, d). r \<in> set (m_R m) \<and> (b, d) \<in> m_InStay m \<and> (b, d + 1) \<in> m_InStay m}"
    and P: "\<forall>b \<in> set (m_B m). m_showp m b \<noteq> None \<and> m_price m b \<noteq> None \<and> m_length m b \<noteq> None"
    and ok: "add_constraints m cps = Inr m'"
  shows frame: "m_B m' = m_B m \<and> m_R m' = m_R m \<and> m_D m' = m_D m \<and> m_start m' = m_start m \<and>
      m_length m' = m_length m \<and> m_price m' = m_price m \<and> m_showp m' = m_showp m \<and>
      m_cap m' = m_cap m \<and> m_InStay m' = m_InStay m \<and> m_YIDX m' = m_YIDX m \<and>
      m_ContPair m' = m_ContPair m \<and> m_RevenueFloor m' = m_RevenueFloor m \<and> m_vals m' = m_vals m"
    and RoomExcl: "m_RoomExcl m' (r, d) =
      (if r \<in> set (m_R m) \<and> d \<in> set (m_D m)
       then Some (Constr (map (\<lambda>b. (1, Var_y b r d)) [b \<leftarrow> m_B m. (b, d) \<in> m_InStay m]) LE [] 1)
       else None)"
    and Assign: "m_Assign m' (b, d) =
      (if b \<in> set (m_B m) \<and> d \<in> set (m_D m) \<and> (b, d) \<in> m_InStay m
       then Some (Constr (map (\<lambda>r. (1, Var_y b r d)) (m_R m)) EQ [(1, Var_a b)] 0)
       else None)"
    and Continuity: "m_Continuity m' (b, r, d) =
      (if (b, r, d) \<in> set cps
       then Some (Constr [(1, Var_y b r d)] EQ [(1, Var_y b r (d + 1))] 0)
       else None)"
    and Overbook: "m_Overbook m' d =
      (if d \<in> set (m_D m)
       then Some (Constr [(1, Var_w d)] GE
                    (map (\<lambda>b. (the (m_showp m b), Var_a b)) [b \<leftarrow> m_B m. (b, d) \<in> m_InStay m])
                    (- real_of_int (the (m_cap m d))))
       else None)"
    and RevExpr: "m_RevExpr m' =
      map (\<lambda>b. (the (m_price m b) * real_of_int (the (m_length m b)), Var_a b)) (m_B m)"
    and obj: "m_obj m' = Some (maximize, m_RevExpr m')"
    and nontrivial: "r \<in> set (m_R m) \<Longrightarrow> d \<in> set (m_D m) \<Longrightarrow> \<exists>b \<in> set (m_B m). (b, d) \<in> m_InStay m"
    and capdef: "d \<in> set (m_D m) \<Longrightarrow> m_cap m d \<noteq> None"
proof -
  from ok obtain c1 c2 c3 c4 revenue where
    c1: "Constraint (List.product (m_R m) (m_D m)) (\<lambda>(r, d). room_excl m r d) = Inr c1" and
    c2: "Constraint (List.product (m_B m) (m_D m)) (\<lambda>(b, d). assign_link m b d) = Inr c2" and
    c3: "Constraint cps (continuity m) = Inr c3" and
    c4: "Constraint (m_D m) (overbooking m) = Inr c4" and
    rv: "revenue_expr m = Inr revenue" and
    m': "m' = m\<lparr>m_RoomExcl := c1, m_Assign := c2, m_Continuity := c3, m_Overbook := c4,
                 m_RevExpr := revenue, m_obj := Some (maximize, revenue)\<rparr>"
    by (auto simp: add_constraints_def split: sum.splits)
  show "m_B m' = m_B m \<and> m_R m' = m_R m \<and> m_D m' = m_D m \<and> m_start m' = m_start m \<and>
      m_length m' = m_length m \<and> m_price m' = m_price m \<and> m_showp m' = m_showp m \<and>
      m_cap m' = m_cap m \<and> m_InStay m' = m_InStay m \<and> m_YIDX m' = m_YIDX m \<and>
      m_ContPair m' = m_ContPair m \<and> m_RevenueFloor m' = m_RevenueFloor m \<and> m_vals m' = m_vals m"
    by (simp add: m')
  have P1: "\<forall>b \<in> set (m_B m). m_showp m b \<noteq> None" using P by blast
  have P2: "\<forall>b \<in> set (m_B m). m_price m b \<noteq> None \<and> m_length m b \<noteq> None" using P by blast
  have ne: "[b \<leftarrow> m_B m. (b, d) \<in> m_InStay m] \<noteq> []" if "r \<in> set (m_R m)" "d \<in> set (m_D m)" for r d
  proof -
    from that have "(r, d) \<in> set (List.product (m_R m) (m_D m))" by simp
    from Constraint_Inr_all[OF c1 this] obtain c where "room_excl m r d = Inr c" by auto
    then show ?thesis using room_excl_eq[OF Y that(1), of d] by (auto split: if_splits)
  qed
  show "\<exists>b \<in> set (m_B m). (b, d) \<in> m_InStay m" if "r \<in> set (m_R m)" "d \<in> set (m_D m)"
    using ne[OF that] by (auto simp: filter_empty_conv)
  show cd: "m_cap m d \<noteq> None" if "d \<in> set (m_D m)" for d
  proof -
    from Constraint_Inr_all[OF c4 that] obtain c where "overbooking m d = Inr c" by auto
    then show ?thesis using overbooking_eq[OF P1, of d] by (auto split: option.splits)
  qed
  show "m_RoomExcl m' (r, d) =
      (if r \<in> set (m_R m) \<and> d \<in> set (m_D m)
       then Some (Constr (map (\<lambda>b. (1, Var_y b r d)) [b \<leftarrow> m_B m. (b, d) \<in> m_InStay m]) LE [] 1)
       else None)"
  proof (cases "r \<in> set (m_R m) \<and> d \<in> set (m_D m)")
    case True
    then have "room_excl m r d
       = Inr (Some (Constr (map (\<lambda>b. (1, Var_y b r d)) [b \<leftarrow> m_B m. (b, d) \<in> m_InStay m]) LE [] 1))"
      using room_excl_eq[OF Y, of r d] ne[of r d] by simp
    with True show ?thesis using Constraint_lookup[OF c1, of "(r, d)"] by (simp add: m')
  next
    case False
    then show ?thesis using Constraint_lookup[OF c1, of "(r, d)"] by (auto simp: m')
  qed
  show "m_Assign m' (b, d) =
      (if b \<in> set (m_B m) \<and> d \<in> set (m_D m) \<and> (b, d) \<in> m_InStay m
       then Some (Constr (map (\<lambda>r. (1, Var_y b r d)) (m_R m)) EQ [(1, Var_a b)] 0)
       else None)"
    using Constraint_lookup[OF c2, of "(b, d)"] assign_link_eq[OF Y, of b d]
    by (auto simp: m')
  show "m_Continuity m' (b, r, d) =
      (if (b, r, d) \<in> set cps
       then Some (Constr [(1, Var_y b r d)] EQ [(1, Var_y b r (d + 1))] 0)
       else None)"
  proof (cases "(b, r, d) \<in> set cps")
    case True
    with C have "r \<in> set (m_R m)" "(b, d) \<in> m_InStay m" "(b, d + 1) \<in> m_InStay m" by auto
    from continuity_eq[OF Y this] True show ?thesis
      using Constraint_lookup[OF c3, of "(b, r, d)"] by (simp add: m')
  next
    case False
    then show ?thesis using Constraint_lookup[OF c3, of "(b, r, d)"] by (simp add: m')
  qed
  show "m_Overbook m' d =
      (if d \<in> set (m_D m)
       then Some (Constr [(1, Var_w d)] GE
                    (map (\<lambda>b. (the (m_showp m b), Var_a b)) [b \<leftarrow> m_B m. (b, d) \<in> m_InStay m])
                    (- real_of_int (the (m_cap m d))))
       else None)"
  proof (cases "d \<in> set (m_D m)")
    case True
    from cd[OF True] obtain c where "m_cap m d = Some c" by auto
    then show ?thesis
      using True Constraint_lookup[OF c4, of d] overbooking_eq[OF P1, of d] by (simp add: m')
  next
    case False
    then show ?thesis using Constraint_lookup[OF c4, of d] by (simp add: m')
  qed
  show "m_RevExpr m' =
      map (\<lambda>b. (the (m_price m b) * real_of_int (the (m_length m b)), Var_a b)) (m_B m)"
    using rv revenue_expr_eq[OF P2] by (simp add: m')
  show "m_obj m' = Some (maximize, m_RevExpr m')" by (simp add: m')
qed

lemma add_constraints_succeeds:
  assumes Y: "m_YIDX m = {(b, r, d). (b, d) \<in> m_InStay m \<and> r \<in> set (m_R m)}"
    and C: "set cps \<subseteq> {(b, r, d). r \<in> set (m_R m) \<and> (b, d) \<in> m_InStay m \<and> (b, d + 1) \<in> m_InStay m}"
    and P: "\<forall>b \<in> set (m_B m). m_showp m b \<noteq> None \<and> m_price m b \<noteq> None \<and> m_length m b \<noteq> None"
    and N: "m_R m \<noteq> [] \<Longrightarrow> \<forall>d \<in> set (m_D m). \<exists>b \<in> set (m_B m). (b, d) \<in> m_InStay m"
    and K: "\<forall>d \<in> set (m_D m). m_cap m d \<noteq> None"
  shows "\<exists>m'. add_constraints m cps = Inr m'"
proof -
  have P1: "\<forall>b \<in> set (m_B m). m_showp m b \<noteq> None" using P by blast
  have P2: "\<forall>b \<in> set (m_B m). m_price m b \<noteq> None \<and> m_length m b \<noteq> None" using P by blast
  have "\<exists>c. (case j of (r, d) \<Rightarrow> room_excl m r d) = Inr c"
    if "j \<in> set (List.product (m_R m) (m_D m))" for j
  proof -
    obtain r d where j: "j = (r, d)" by (cases j)
    with that have rd: "r \<in> set (m_R m)" "d \<in> set (m_D m)" by auto
    then have "m_R m \<noteq> []" by auto
    from N[OF this] rd have "[b \<leftarrow> m_B m. (b, d) \<in> m_InStay m] \<noteq> []"
      by (auto simp: filter_empty_conv)
    then show ?thesis using room_excl_eq[OF Y rd(1), of d] j by simp
  qed
  from Constraint_succeeds[of _ "\<lambda>(r, d). room_excl m r d", OF this]
  obtain c1 where c1: "Constraint (List.product (m_R m) (m_D m)) (\<lambda>(r, d). room_excl m r d) = Inr c1"
    by blast
  have "\<exists>c. (case j of (b, d) \<Rightarrow> assign_link m b d) = Inr c" for j
    using assign_link_eq[OF Y] by (cases j) auto
  from Constraint_succeeds[of _ "\<lambda>(b, d). assign_link m b d", OF this]
  obtain c2 where c2: "Constraint (List.product (m_B m) (m_D m)) (\<lambda>(b, d). assign_link m b d) = Inr c2"
    by blast
  have "\<exists>c. continuity m j = Inr c" if "j \<in> set cps" for j
  proof -
    obtain b r d where j: "j = (b, r, d)" by (cases j)
    with that C have "r \<in> set (m_R m)" "(b, d) \<in> m_InStay m" "(b, d + 1) \<in> m_InStay m" by auto
    from continuity_eq[OF Y this] j show ?thesis by simp
  qed
  from Constraint_succeeds[of cps "continuity m", OF this]
  obtain c3 where c3: "Constraint cps (continuity m) = Inr c3" by blast
  have "\<exists>c. overbooking m d = Inr c" if "d \<in> set (m_D m)" for d
    using K that overbooking_eq[OF P1, of d] by (auto split: option.splits)
  from Constraint_succeeds[of "m_D m" "overbooking m", OF this]
  obtain c4 where c4: "Constraint (m_D m) (overbooking m) = Inr c4" by blast
  show ?thesis using c1 c2 c3 c4 revenue_expr_eq[OF P2] by (simp add: add_constraints_def)
qed

subsection \<open>The builders\<close>

lemma build_model_eq: "build_model g = add_constraints (mini_pre g) (cont g)"
proof -
  have k: "fst ` set (map (\<lambda>(b, s, L, p, q). (b, f s L p q)) (bookings g)) \<subseteq> set (B g)" for f :: "int \<Rightarrow> int \<Rightarrow> real \<Rightarrow> real \<Rightarrow> 'x"
    by (force simp: B_def)
  have p: "Param (B g) (\<lambda>v. True) (map (\<lambda>(b, s, L, p, q). (b, f s L p q)) (bookings g))
        = Inr (map_of (map (\<lambda>(b, s, L, p, q). (b, f s L p q)) (bookings g)))"
    for f :: "int \<Rightarrow> int \<Rightarrow> real \<Rightarrow> real \<Rightarrow> 'x"
    by (rule Param_succeeds[OF k]) simp
  have c: "Param (days g) (\<lambda>v. True) (CAP g) = Inr (map_of (CAP g))"
    by (rule Param_succeeds) (auto simp: CAP_def)
  show ?thesis
    using p[of "\<lambda>s L p q. s"] p[of "\<lambda>s L p q. L"] p[of "\<lambda>s L p q. p"] p[of "\<lambda>s L p q. q"] c
    by (simp add: build_model_def mini_pre_def Let_def)
qed

lemma instay_params:
  "instay (m\<lparr>m_InStay := a, m_YIDX := b\<rparr>) = instay m"
  "m_B (static_params bks ndays nrooms cbd) = map fst bks"
  "m_D (static_params bks ndays nrooms cbd) = [1 .. ndays]"
  "m_R (static_params bks ndays nrooms cbd) = [1 .. nrooms]"
  by (simp_all add: instay_def static_params_def ConcreteModel_def)

lemma static_cont_upd: "static_cont (m\<lparr>m_InStay := a, m_YIDX := b\<rparr>) = static_cont m"
  by (simp add: static_cont_def instay_def)

lemma build_static_eq:
  "build_static_lco_model bookings_arg ndays nrooms capacity_by_day =
     (let bks = bookings_or_default bookings_arg;
          cbd = capacity_or_default capacity_by_day ndays nrooms
      in case Param (map fst bks) (\<lambda>v. v \<in> set [1 .. ndays])
                (map (\<lambda>(b, spec). (b, start_day spec)) bks) of
           Inl e \<Rightarrow> Inl e
         | Inr start \<Rightarrow>
            (case Param [1 .. ndays] (\<lambda>v. True) cbd of
               Inl e \<Rightarrow> Inl e
             | Inr cap \<Rightarrow>
                 add_constraints (static_pre bks ndays nrooms cbd)
                   (static_cont (static_params bks ndays nrooms cbd))))"
proof -
  define bks where "bks = bookings_or_default bookings_arg"
  define cbd where
    "cbd = capacity_or_default capacity_by_day ndays nrooms"
  have p: "Param (map fst bks) (\<lambda>v. True) (map (\<lambda>(b, spec). (b, f spec)) bks)
        = Inr (map_of (map (\<lambda>(b, spec). (b, f spec)) bks))" for f :: "BookingSpec \<Rightarrow> 'x"
    by (rule Param_succeeds) force+
  show ?thesis
  proof (cases "Param (map fst bks) (\<lambda>v. v \<in> set [1 .. ndays])
                  (map (\<lambda>(b, spec). (b, start_day spec)) bks)")
    case (Inl e)
    then show ?thesis
      unfolding build_static_lco_model_def bks_def[symmetric] cbd_def[symmetric] Let_def
      by simp
  next
    case (Inr start)
    then have start: "start = map_of (map (\<lambda>(b, spec). (b, start_day spec)) bks)"
      using Param_Inr by blast
    show ?thesis
    proof (cases "Param [1 .. ndays] (\<lambda>v. True) cbd")
      case (Inl e)
      with Inr show ?thesis
        unfolding build_static_lco_model_def bks_def[symmetric] cbd_def[symmetric] Let_def
        using p[of length_of_stay] p[of price_per_night] p[of show_prob]
        by simp
    next
      case cap: (Inr cap)
      then have cap': "cap = map_of cbd" using Param_Inr by blast
      from Inr cap show ?thesis
        unfolding build_static_lco_model_def bks_def[symmetric] cbd_def[symmetric] Let_def
        using p[of length_of_stay] p[of price_per_night] p[of show_prob]
        by (simp add: start cap' static_pre_def static_params_def Let_def static_cont_upd)
    qed
  qed
qed

lemma in_stay_iff:
  "(b, d) \<in> set (in_stay g) \<longleftrightarrow>
     b \<in> set (B g) \<and> d \<in> set (days g) \<and> d \<in> set (sdays (stay_days g b))"
  by (auto simp: in_stay_def)

lemma yidx_iff: "(b, r, d) \<in> set (yidx ps rs) \<longleftrightarrow> (b, d) \<in> set ps \<and> r \<in> set rs"
  by (auto simp: yidx_def)

lemma cont_iff:
  "(b, r, d) \<in> set (cont g) \<longleftrightarrow>
     b \<in> set (B g) \<and> r \<in> set (rooms g) \<and> d \<in> set (days g) \<and>
     d \<in> set (sdays (stay_days g b)) \<and> d + 1 \<in> set (sdays (stay_days g b))"
  by (auto simp: cont_def)

lemma instay_iff:
  "(b, d) \<in> set (instay m) \<longleftrightarrow>
     b \<in> set (m_B m) \<and> d \<in> set (m_D m) \<and>
     d \<in> set (sdays (static_stay_days (m_D m) (m_start m) (m_length m) b))"
  by (auto simp: instay_def)

lemma static_cont_iff:
  "(b, r, d) \<in> set (static_cont m) \<longleftrightarrow>
     b \<in> set (m_B m) \<and> r \<in> set (m_R m) \<and> d \<in> set (m_D m) \<and>
     (b, d) \<in> set (instay m) \<and> (b, d + 1) \<in> set (instay m)"
  by (auto simp: static_cont_def)

lemma sdays_Inr [simp]: "sdays (Inr ds) = ds" and sdays_Inl [simp]: "sdays (Inl e) = []"
  by (simp_all add: sdays_def)

lemma stay_days_known:
  "b \<in> set (B g) \<Longrightarrow> \<exists>s L p q. map_of (bookings g) b = Some (s, L, p, q)"
proof -
  assume "b \<in> set (B g)"
  then have "b \<in> fst ` set (bookings g)" by (simp add: B_def)
  then obtain t where "map_of (bookings g) b = Some t"
    by (metis domD dom_map_of_conv_image_fst)
  then show ?thesis by (cases t) auto
qed

lemma stay_days_unknown: "b \<notin> set (B g) \<Longrightarrow> stay_days g b = Inl (KeyError b)"
proof -
  assume "b \<notin> set (B g)"
  then have "map_of (bookings g) b = None"
    by (simp add: B_def map_of_eq_None_iff)
  then show ?thesis by (simp add: stay_days_def)
qed

lemma stay_days_Inr_iff: "(\<exists>ds. stay_days g b = Inr ds) \<longleftrightarrow> b \<in> set (B g)"
proof
  assume "\<exists>ds. stay_days g b = Inr ds"
  then show "b \<in> set (B g)" by (cases "b \<in> set (B g)") (auto simp: stay_days_unknown)
next
  assume "b \<in> set (B g)"
  from stay_days_known[OF this] show "\<exists>ds. stay_days g b = Inr ds"
    by (auto simp: stay_days_mini)
qed

lemma sdays_mini_upper: "d \<in> set (sdays (stay_days g b)) \<Longrightarrow> d \<le> DAYS g"
  by (cases "map_of (bookings g) b") (auto simp: stay_days_def)

lemma mini_pre_fields:
  "m_B (mini_pre g) = B g" "m_R (mini_pre g) = rooms g" "m_D (mini_pre g) = days g"
  "m_InStay (mini_pre g) = set (in_stay g)"
  "m_YIDX (mini_pre g) = set (yidx (in_stay g) (rooms g))"
  "m_ContPair (mini_pre g) = set (cont g)"
  "m_start (mini_pre g) = map_of (map (\<lambda>(b, s, L, p, q). (b, s)) (bookings g))"
  "m_length (mini_pre g) = map_of (map (\<lambda>(b, s, L, p, q). (b, L)) (bookings g))"
  "m_price (mini_pre g) = map_of (map (\<lambda>(b, s, L, p, q). (b, p)) (bookings g))"
  "m_showp (mini_pre g) = map_of (map (\<lambda>(b, s, L, p, q). (b, q)) (bookings g))"
  "m_cap (mini_pre g) = map_of (CAP g)"
  "m_RevenueFloor (mini_pre g) = None" "m_vals (mini_pre g) = Map.empty"
  by (simp_all add: mini_pre_def ConcreteModel_def)

lemma mini_Y:
  "m_YIDX (mini_pre g) = {(b, r, d). (b, d) \<in> m_InStay (mini_pre g) \<and> r \<in> set (m_R (mini_pre g))}"
  by (auto simp: mini_pre_fields yidx_iff)

lemma mini_C:
  "set (cont g) \<subseteq> {(b, r, d). r \<in> set (m_R (mini_pre g)) \<and> (b, d) \<in> m_InStay (mini_pre g)
      \<and> (b, d + 1) \<in> m_InStay (mini_pre g)}"
proof -
  have "d + 1 \<in> set (days g)" if "d \<in> set (days g)" "d + 1 \<in> set (sdays (stay_days g b))" for d b
    using that sdays_mini_upper[OF that(2)] by (simp add: days_def)
  then show ?thesis by (auto simp: mini_pre_fields cont_iff in_stay_iff)
qed

lemma map_of_proj_defined:
  "b \<in> fst ` set xs \<Longrightarrow> map_of (map (\<lambda>(k, v). (k, f v)) xs) b \<noteq> None"
  by (induction xs) auto

lemma mini_P:
  "\<forall>b \<in> set (m_B (mini_pre g)). m_showp (mini_pre g) b \<noteq> None \<and> m_price (mini_pre g) b \<noteq> None
      \<and> m_length (mini_pre g) b \<noteq> None"
proof
  fix b assume "b \<in> set (m_B (mini_pre g))"
  then have b: "b \<in> fst ` set (bookings g)" by (simp add: mini_pre_fields B_def)
  have "map_of (map (\<lambda>(k, v). (k, f v)) (bookings g)) b \<noteq> None" for f :: "int \<times> int \<times> real \<times> real \<Rightarrow> 'x"
    by (rule map_of_proj_defined[OF b])
  from this[of "\<lambda>(s, L, p, q). q"] this[of "\<lambda>(s, L, p, q). p"] this[of "\<lambda>(s, L, p, q). L"]
  show "m_showp (mini_pre g) b \<noteq> None \<and> m_price (mini_pre g) b \<noteq> None
      \<and> m_length (mini_pre g) b \<noteq> None"
    by (simp add: mini_pre_fields case_prod_unfold)
qed

lemma mini_K: "\<forall>d \<in> set (m_D (mini_pre g)). m_cap (mini_pre g) d \<noteq> None"
  by (auto simp: mini_pre_fields CAP_def map_of_eq_None_iff image_image)

lemmas mini_built = add_constraints_Inr[OF mini_Y mini_C mini_P, unfolded mini_pre_fields]

lemma build_model_succeeds_iff:
  "(\<exists>m. build_model g = Inr m) \<longleftrightarrow>
     (rooms g \<noteq> [] \<longrightarrow> (\<forall>d \<in> set (days g). \<exists>b \<in> set (B g). d \<in> set (sdays (stay_days g b))))"
proof
  assume "\<exists>m. build_model g = Inr m"
  then obtain m where "add_constraints (mini_pre g) (cont g) = Inr m"
    by (auto simp: build_model_eq)
  note n = mini_built(8)[OF this]
  show "rooms g \<noteq> [] \<longrightarrow> (\<forall>d \<in> set (days g). \<exists>b \<in> set (B g). d \<in> set (sdays (stay_days g b)))"
  proof (intro impI ballI)
    fix d assume "rooms g \<noteq> []" "d \<in> set (days g)"
    then obtain r where "r \<in> set (rooms g)" by (cases "rooms g") auto
    from n[OF this \<open>d \<in> set (days g)\<close>] show "\<exists>b \<in> set (B g). d \<in> set (sdays (stay_days g b))"
      by (auto simp: in_stay_iff)
  qed
next
  assume a: "rooms g \<noteq> [] \<longrightarrow> (\<forall>d \<in> set (days g). \<exists>b \<in> set (B g). d \<in> set (sdays (stay_days g b)))"
  have "\<exists>m'. add_constraints (mini_pre g) (cont g) = Inr m'"
  proof (rule add_constraints_succeeds[OF mini_Y mini_C mini_P _ mini_K])
    assume "m_R (mini_pre g) \<noteq> []"
    with a show "\<forall>d \<in> set (m_D (mini_pre g)). \<exists>b \<in> set (m_B (mini_pre g)). (b, d) \<in> m_InStay (mini_pre g)"
      by (auto simp: mini_pre_fields in_stay_iff)
  qed
  then show "\<exists>m. build_model g = Inr m" by (simp add: build_model_eq)
qed

lemma static_params_fields:
  "m_B (static_params bks nd nr cbd) = map fst bks"
  "m_R (static_params bks nd nr cbd) = [1 .. nr]"
  "m_D (static_params bks nd nr cbd) = [1 .. nd]"
  "m_start (static_params bks nd nr cbd) = map_of (map (\<lambda>(b, spec). (b, start_day spec)) bks)"
  "m_length (static_params bks nd nr cbd) = map_of (map (\<lambda>(b, spec). (b, length_of_stay spec)) bks)"
  "m_price (static_params bks nd nr cbd) = map_of (map (\<lambda>(b, spec). (b, price_per_night spec)) bks)"
  "m_showp (static_params bks nd nr cbd) = map_of (map (\<lambda>(b, spec). (b, show_prob spec)) bks)"
  "m_cap (static_params bks nd nr cbd) = map_of cbd"
  by (simp_all add: static_params_def ConcreteModel_def)

lemma static_pre_fields:
  "m_B (static_pre bks nd nr cbd) = map fst bks"
  "m_R (static_pre bks nd nr cbd) = [1 .. nr]"
  "m_D (static_pre bks nd nr cbd) = [1 .. nd]"
  "m_start (static_pre bks nd nr cbd) = map_of (map (\<lambda>(b, spec). (b, start_day spec)) bks)"
  "m_length (static_pre bks nd nr cbd) = map_of (map (\<lambda>(b, spec). (b, length_of_stay spec)) bks)"
  "m_price (static_pre bks nd nr cbd) = map_of (map (\<lambda>(b, spec). (b, price_per_night spec)) bks)"
  "m_showp (static_pre bks nd nr cbd) = map_of (map (\<lambda>(b, spec). (b, show_prob spec)) bks)"
  "m_cap (static_pre bks nd nr cbd) = map_of cbd"
  "m_InStay (static_pre bks nd nr cbd) = set (instay (static_params bks nd nr cbd))"
  "m_YIDX (static_pre bks nd nr cbd) = set (yidx (instay (static_params bks nd nr cbd)) [1 .. nr])"
  "m_ContPair (static_pre bks nd nr cbd) = set (static_cont (static_params bks nd nr cbd))"
  "m_RevenueFloor (static_pre bks nd nr cbd) = None"
  "m_vals (static_pre bks nd nr cbd) = Map.empty"
  by (simp_all add: static_pre_def Let_def static_params_fields)
     (simp_all add: static_params_def ConcreteModel_def)

lemma static_Y:
  "m_YIDX (static_pre bks nd nr cbd) =
     {(b, r, d). (b, d) \<in> m_InStay (static_pre bks nd nr cbd) \<and> r \<in> set (m_R (static_pre bks nd nr cbd))}"
  by (auto simp: static_pre_fields yidx_iff)

lemma static_C:
  "set (static_cont (static_params bks nd nr cbd)) \<subseteq>
     {(b, r, d). r \<in> set (m_R (static_pre bks nd nr cbd)) \<and> (b, d) \<in> m_InStay (static_pre bks nd nr cbd)
        \<and> (b, d + 1) \<in> m_InStay (static_pre bks nd nr cbd)}"
  by (auto simp: static_pre_fields static_params_fields static_cont_iff)

lemma static_P:
  "\<forall>b \<in> set (m_B (static_pre bks nd nr cbd)).
      m_showp (static_pre bks nd nr cbd) b \<noteq> None \<and> m_price (static_pre bks nd nr cbd) b \<noteq> None
      \<and> m_length (static_pre bks nd nr cbd) b \<noteq> None"
  by (auto simp: static_pre_fields map_of_eq_None_iff image_image case_prod_unfold)

lemmas static_built = add_constraints_Inr[OF static_Y static_C static_P, unfolded static_pre_fields]

lemma build_static_Inr:
  assumes "build_static_lco_model bookings_arg nd nr capacity_by_day = Inr m"
    and "bks = bookings_or_default bookings_arg"
    and "cbd = capacity_or_default capacity_by_day nd nr"
  shows "\<forall>(b, spec) \<in> set bks. 1 \<le> start_day spec \<and> start_day spec \<le> nd"
    and "fst ` set cbd \<subseteq> {1 .. nd}"
    and "add_constraints (static_pre bks nd nr cbd) (static_cont (static_params bks nd nr cbd)) = Inr m"
proof -
  from assms obtain start cap where
    s: "Param (map fst bks) (\<lambda>v. v \<in> set [1 .. nd]) (map (\<lambda>(b, spec). (b, start_day spec)) bks) = Inr start"
    and c: "Param [1 .. nd] (\<lambda>v. True) cbd = Inr cap"
    and a: "add_constraints (static_pre bks nd nr cbd) (static_cont (static_params bks nd nr cbd)) = Inr m"
    by (auto simp: build_static_eq Let_def split: sum.splits)
  from Param_Inr[OF s] show "\<forall>(b, spec) \<in> set bks. 1 \<le> start_day spec \<and> start_day spec \<le> nd"
    by auto
  from Param_Inr[OF c] show "fst ` set cbd \<subseteq> {1 .. nd}" by auto
  from a show "add_constraints (static_pre bks nd nr cbd) (static_cont (static_params bks nd nr cbd)) = Inr m" .
qed

lemma build_static_start_error:
  assumes "(b, spec) \<in> set bks" "\<not> (1 \<le> start_day spec \<and> start_day spec \<le> nd)"
    and "bks = bookings_or_default bookings_arg"
  shows "\<exists>b'. build_static_lco_model bookings_arg nd nr capacity_by_day = Inl (ParamDomainError b')"
proof -
  let ?P = "Param (map fst bks) (\<lambda>v. v \<in> set [1 .. nd]) (map (\<lambda>(b, spec). (b, start_day spec)) bks)"
  have "\<exists>b'. ?P = Inl (ParamDomainError b')"
  proof (cases ?P)
    case (Inl e)
    from Param_Inl[OF Inl] show ?thesis using Inl by force
  next
    case (Inr p)
    from Param_Inr[OF Inr] assms(1,2) show ?thesis by auto
  qed
  then show ?thesis using assms(3) by (auto simp: build_static_eq Let_def)
qed

lemma map_of_proj: "map_of (map (\<lambda>(k, v). (k, f v)) xs) = map_option f \<circ> map_of xs"
  by (induction xs) (auto simp: fun_eq_iff)

lemma build_static_succeeds_iff:
  assumes bks: "bks = bookings_or_default bookings_arg"
    and cbd: "cbd = capacity_or_default capacity_by_day nd nr"
  shows "(\<exists>m. build_static_lco_model bookings_arg nd nr capacity_by_day = Inr m) \<longleftrightarrow>
     (\<forall>(b, spec) \<in> set bks. 1 \<le> start_day spec \<and> start_day spec \<le> nd) \<and>
     fst ` set cbd = set [1 .. nd] \<and>
     ([1 .. nr] \<noteq> [] \<longrightarrow>
        (\<forall>d \<in> set [1 .. nd]. \<exists>b \<in> set (map fst bks).
            d \<in> set (sdays (static_stay_days [1 .. nd] (map_option start_day \<circ> map_of bks)
                               (map_option length_of_stay \<circ> map_of bks) b))))"
    (is "?L \<longleftrightarrow> ?S \<and> ?K \<and> ?N")
proof
  assume ?L
  then obtain m where b: "build_static_lco_model bookings_arg nd nr capacity_by_day = Inr m" ..
  note i = build_static_Inr[OF b bks cbd]
  note n = static_built(8)[OF i(3)] and k = static_built(9)[OF i(3)]
  have K: ?K
  proof
    show "fst ` set cbd \<subseteq> set [1 .. nd]" using i(2) by simp
    show "set [1 .. nd] \<subseteq> fst ` set cbd"
    proof
      fix d assume "d \<in> set [1 .. nd]"
      from k[OF this] show "d \<in> fst ` set cbd" by (simp add: map_of_eq_None_iff)
    qed
  qed
  have N: ?N
  proof (intro impI ballI)
    fix d assume "[1 .. nr] \<noteq> []" and d: "d \<in> set [1 .. nd]"
    then obtain r where "r \<in> set [1 .. nr]" by (cases "[1 .. nr]") auto
    from n[OF this d] obtain b where "b \<in> set (map fst bks)"
      "(b, d) \<in> set (instay (static_params bks nd nr cbd))" by blast
    then show "\<exists>b \<in> set (map fst bks).
        d \<in> set (sdays (static_stay_days [1 .. nd] (map_option start_day \<circ> map_of bks)
                           (map_option length_of_stay \<circ> map_of bks) b))"
      unfolding instay_iff static_params_fields map_of_proj by (intro bexI[of _ b]) simp_all
  qed
  from i(1) K N show "?S \<and> ?K \<and> ?N" by (intro conjI)
next
  assume a: "?S \<and> ?K \<and> ?N"
  then have S: ?S and K: ?K and N: ?N by blast+
  have s1: "fst ` set (map (\<lambda>(b, spec). (b, start_day spec)) bks) \<subseteq> set (map fst bks)"
    by force
  have s2: "\<forall>(k, v) \<in> set (map (\<lambda>(b, spec). (b, start_day spec)) bks). v \<in> set [1 .. nd]"
    using S by (simp add: case_prod_unfold)
  have s: "Param (map fst bks) (\<lambda>v. v \<in> set [1 .. nd]) (map (\<lambda>(b, spec). (b, start_day spec)) bks)
        = Inr (map_of (map (\<lambda>(b, spec). (b, start_day spec)) bks))"
    by (rule Param_succeeds[OF s1 s2])
  have c: "Param [1 .. nd] (\<lambda>v. True) cbd = Inr (map_of cbd)"
    by (rule Param_succeeds) (simp_all add: K)
  have "\<exists>m'. add_constraints (static_pre bks nd nr cbd) (static_cont (static_params bks nd nr cbd)) = Inr m'"
  proof (rule add_constraints_succeeds[OF static_Y static_C static_P])
    assume "m_R (static_pre bks nd nr cbd) \<noteq> []"
    then have "[1 .. nr] \<noteq> []" by (simp add: static_pre_fields)
    with N have "\<forall>d \<in> set [1 .. nd]. \<exists>b \<in> set (map fst bks).
            d \<in> set (sdays (static_stay_days [1 .. nd] (map_option start_day \<circ> map_of bks)
                               (map_option length_of_stay \<circ> map_of bks) b))" by (rule mp)
    then show "\<forall>d \<in> set (m_D (static_pre bks nd nr cbd)).
        \<exists>b \<in> set (m_B (static_pre bks nd nr cbd)). (b, d) \<in> m_InStay (static_pre bks nd nr cbd)"
      unfolding static_pre_fields instay_iff static_params_fields map_of_proj by blast
  next
    have "d \<in> fst ` set cbd" if "d \<in> set [1 .. nd]" for d using K that by blast
    then show "\<forall>d \<in> set (m_D (static_pre bks nd nr cbd)). m_cap (static_pre bks nd nr cbd) d \<noteq> None"
      by (simp add: static_pre_fields map_of_eq_None_iff)
  qed
  then show ?L using s c bks cbd by (simp add: build_static_eq Let_def)
qed

subsection \<open>Declared variables and stay days\<close>

lemma declared_y: "Var_y b r d \<in> declared m \<longleftrightarrow> (b, r, d) \<in> m_YIDX m"
  by (force simp: declared_def)

lemma declared_a: "Var_a b \<in> declared m \<longleftrightarrow> b \<in> set (m_B m)"
  by (auto simp: declared_def)

lemma declared_w: "Var_w d \<in> declared m \<longleftrightarrow> d \<in> set (m_D m)"
  by (auto simp: declared_def)

lemma stay_days_member:
  "(\<exists>ds. stay_days g b = Inr ds \<and> d \<in> set ds) \<longleftrightarrow> b \<in> set (B g) \<and> d \<in> set (sdays (stay_days g b))"
  using stay_days_Inr_iff[of g b] by (cases "stay_days g b") auto

lemma sdays_mini_lower:
  assumes "\<forall>(b', s, L, p, q) \<in> set (bookings g). 1 \<le> s" "d \<in> set (sdays (stay_days g b))"
  shows "1 \<le> d"
proof (cases "map_of (bookings g) b")
  case None
  with assms(2) show ?thesis by (simp add: stay_days_def)
next
  case (Some t)
  obtain s L p q where t: "t = (s, L, p, q)" by (cases t)
  from Some t have "(b, s, L, p, q) \<in> set (bookings g)" by (auto dest: map_of_SomeD)
  with assms(1) have "1 \<le> s" by auto
  with assms(2) Some t show ?thesis by (simp add: stay_days_mini)
qed

lemma static_stay_days_member:
  "(\<exists>ds. static_stay_days D (map_option f \<circ> map_of bks) (map_option h \<circ> map_of bks) b = Inr ds \<and> d \<in> set ds)
     \<longleftrightarrow> b \<in> fst ` set bks \<and>
         d \<in> set (sdays (static_stay_days D (map_option f \<circ> map_of bks) (map_option h \<circ> map_of bks) b))"
proof (cases "map_of bks b")
  case None
  then have "b \<notin> fst ` set bks" by (simp add: map_of_eq_None_iff)
  with None show ?thesis by (simp add: static_stay_days_def param_def)
next
  case (Some spec)
  then have "b \<in> fst ` set bks" by (metis domI dom_map_of_conv_image_fst)
  with Some show ?thesis by (simp add: static_stay_days_def param_def)
qed

lemma ex_mini_built: "\<exists>m. build_model ex_globals = Inr m"
  unfolding build_model_succeeds_iff
  by (simp add: ex_globals_def days_def rooms_def B_def stay_days_def upto_from_1)

lemma ex_static_built: "\<exists>m. build_static_lco_model (Some ex_bookings) 3 2 None = Inr m"
  unfolding build_static_succeeds_iff[OF refl refl]
  by (simp add: bookings_or_default_def capacity_or_default_def ex_bookings_def
        static_stay_days_def param_def upto_from_1)

subsection \<open>Feasible valuations\<close>

lemma eval_expr_map: "eval_expr v (map (\<lambda>x. (c x, h x)) xs) = sum_list (map (\<lambda>x. c x * v (h x)) xs)"
  by (simp add: eval_expr_def comp_def)

lemma eval_expr_simps [simp]:
  "eval_expr v [] = 0" "eval_expr v ((c, x) # e) = c * v x + eval_expr v e"
  by (simp_all add: eval_expr_def)

lemma binary_sum_zero:
  fixes f :: "'a \<Rightarrow> real"
  assumes "\<forall>r \<in> set rs. f r = 0 \<or> f r = 1" "sum_list (map f rs) = 0"
  shows "\<forall>r \<in> set rs. f r = 0"
  using assms
proof (induction rs)
  case Nil
  then show ?case by simp
next
  case (Cons r rs)
  have nn: "0 \<le> sum_list (map f rs)"
    by (rule sum_list_nonneg) (use Cons.prems(1) in auto)
  from Cons.prems(1) have "0 \<le> f r" by auto
  with nn Cons.prems(2) have "f r = 0" "sum_list (map f rs) = 0" by simp_all
  with Cons.IH Cons.prems(1) show ?case by simp
qed

lemma binary_sum_one:
  fixes f :: "'a \<Rightarrow> real"
  assumes "distinct rs" "\<forall>r \<in> set rs. f r = 0 \<or> f r = 1" "sum_list (map f rs) = 1"
  shows "\<exists>r \<in> set rs. f r = 1 \<and> (\<forall>r' \<in> set rs. r' \<noteq> r \<longrightarrow> f r' = 0)"
  using assms
proof (induction rs)
  case Nil
  then show ?case by simp
next
  case (Cons r rs)
  from Cons.prems(2) have "f r = 0 \<or> f r = 1" by simp
  then show ?case
  proof
    assume z: "f r = 0"
    with Cons.prems have "sum_list (map f rs) = 1" "distinct rs" "\<forall>r \<in> set rs. f r = 0 \<or> f r = 1"
      by simp_all
    from Cons.IH[OF this(2,3,1)] obtain r0 where
      "r0 \<in> set rs" "f r0 = 1" "\<forall>r' \<in> set rs. r' \<noteq> r0 \<longrightarrow> f r' = 0" by blast
    with z show ?thesis by (intro bexI[of _ r0]) auto
  next
    assume o: "f r = 1"
    with Cons.prems have "sum_list (map f rs) = 0" "\<forall>r \<in> set rs. f r = 0 \<or> f r = 1" by simp_all
    from binary_sum_zero[OF this(2,1)] o show ?thesis by (intro bexI[of _ r]) auto
  qed
qed

lemma ran_forall: "(\<forall>c \<in> ran f. P c) \<longleftrightarrow> (\<forall>k c. f k = Some c \<longrightarrow> P c)"
  by (auto simp: ran_def)

lemma feasible_constraint:
  "feasible m v \<Longrightarrow> m_Assign m k = Some c \<Longrightarrow> holds v c"
  "feasible m v \<Longrightarrow> m_Continuity m k' = Some c \<Longrightarrow> holds v c"
  "feasible m v \<Longrightarrow> m_RoomExcl m k = Some c \<Longrightarrow> holds v c"
  "feasible m v \<Longrightarrow> m_Overbook m d = Some c \<Longrightarrow> holds v c"
  "feasible m v \<Longrightarrow> m_RevenueFloor m = Some c \<Longrightarrow> holds v c"
  using ranI[of "m_Assign m" k c] ranI[of "m_Continuity m" k' c] ranI[of "m_RoomExcl m" k c]
    ranI[of "m_Overbook m" d c]
  by (simp_all add: feasible_def constraints_def)

lemma assign_link_forces:
  assumes f: "feasible m v"
    and c: "m_Assign m (b, d) = Some (Constr (map (\<lambda>r. (1, Var_y b r d)) rs) EQ [(1, Var_a b)] 0)"
    and rs: "distinct rs" "\<forall>r \<in> set rs. (b, r, d) \<in> m_YIDX m"
  shows "v (Var_a b) = 1 \<longrightarrow>
           (\<exists>r \<in> set rs. v (Var_y b r d) = 1 \<and> (\<forall>r' \<in> set rs. r' \<noteq> r \<longrightarrow> v (Var_y b r' d) = 0))"
    and "v (Var_a b) = 0 \<longrightarrow> (\<forall>r \<in> set rs. v (Var_y b r d) = 0)"
proof -
  from feasible_constraint(1)[OF f c]
  have s: "sum_list (map (\<lambda>r. v (Var_y b r d)) rs) = v (Var_a b)"
    by (simp add: eval_expr_map)
  have bin: "\<forall>r \<in> set rs. v (Var_y b r d) = 0 \<or> v (Var_y b r d) = 1"
    using f rs(2) by (fastforce simp: feasible_def)
  show "v (Var_a b) = 1 \<longrightarrow>
           (\<exists>r \<in> set rs. v (Var_y b r d) = 1 \<and> (\<forall>r' \<in> set rs. r' \<noteq> r \<longrightarrow> v (Var_y b r' d) = 0))"
    using binary_sum_one[OF rs(1) bin] s by simp
  show "v (Var_a b) = 0 \<longrightarrow> (\<forall>r \<in> set rs. v (Var_y b r d) = 0)"
    using binary_sum_zero[OF bin] s by simp
qed

lemma feasible_built:
  assumes Y: "m_YIDX m = {(b, r, d). (b, d) \<in> m_InStay m \<and> r \<in> set (m_R m)}"
    and C: "set cps \<subseteq> {(b, r, d). r \<in> set (m_R m) \<and> (b, d) \<in> m_InStay m \<and> (b, d + 1) \<in> m_InStay m}"
    and P: "\<forall>b \<in> set (m_B m). m_showp m b \<noteq> None \<and> m_price m b \<noteq> None \<and> m_length m b \<noteq> None"
    and ok: "add_constraints m cps = Inr m'"
    and F: "m_RevenueFloor m = None"
  shows "feasible m' v \<longleftrightarrow>
     (\<forall>b \<in> set (m_B m). v (Var_a b) = 0 \<or> v (Var_a b) = 1) \<and>
     (\<forall>(b, r, d) \<in> m_YIDX m. v (Var_y b r d) = 0 \<or> v (Var_y b r d) = 1) \<and>
     (\<forall>d \<in> set (m_D m). 0 \<le> v (Var_w d)) \<and>
     (\<forall>r \<in> set (m_R m). \<forall>d \<in> set (m_D m).
         sum_list (map (\<lambda>b. v (Var_y b r d)) [b \<leftarrow> m_B m. (b, d) \<in> m_InStay m]) \<le> 1) \<and>
     (\<forall>b \<in> set (m_B m). \<forall>d \<in> set (m_D m). (b, d) \<in> m_InStay m \<longrightarrow>
         sum_list (map (\<lambda>r. v (Var_y b r d)) (m_R m)) = v (Var_a b)) \<and>
     (\<forall>(b, r, d) \<in> set cps. v (Var_y b r d) = v (Var_y b r (d + 1))) \<and>
     (\<forall>d \<in> set (m_D m).
         sum_list (map (\<lambda>b. the (m_showp m b) * v (Var_a b)) [b \<leftarrow> m_B m. (b, d) \<in> m_InStay m])
           - real_of_int (the (m_cap m d)) \<le> v (Var_w d))"
proof -
  note b = add_constraints_Inr[OF Y C P ok]
  have fr: "m_B m' = m_B m" "m_YIDX m' = m_YIDX m" "m_D m' = m_D m" "m_RevenueFloor m' = None"
    using b(1) F by simp_all
  have 1: "(\<forall>c \<in> ran (m_RoomExcl m'). holds v c) \<longleftrightarrow>
     (\<forall>r \<in> set (m_R m). \<forall>d \<in> set (m_D m).
         sum_list (map (\<lambda>b. v (Var_y b r d)) [b \<leftarrow> m_B m. (b, d) \<in> m_InStay m]) \<le> 1)"
    unfolding ran_forall by (auto simp: b(2) eval_expr_map split: if_splits)
  have 2: "(\<forall>c \<in> ran (m_Assign m'). holds v c) \<longleftrightarrow>
     (\<forall>b \<in> set (m_B m). \<forall>d \<in> set (m_D m). (b, d) \<in> m_InStay m \<longrightarrow>
         sum_list (map (\<lambda>r. v (Var_y b r d)) (m_R m)) = v (Var_a b))"
    unfolding ran_forall by (auto simp: b(3) eval_expr_map split: if_splits)
  have 3: "(\<forall>c \<in> ran (m_Continuity m'). holds v c) \<longleftrightarrow>
     (\<forall>(b, r, d) \<in> set cps. v (Var_y b r d) = v (Var_y b r (d + 1)))"
    unfolding ran_forall by (auto simp: b(4) split: if_splits)
  have 4: "(\<forall>c \<in> ran (m_Overbook m'). holds v c) \<longleftrightarrow>
     (\<forall>d \<in> set (m_D m).
         sum_list (map (\<lambda>b. the (m_showp m b) * v (Var_a b)) [b \<leftarrow> m_B m. (b, d) \<in> m_InStay m])
           - real_of_int (the (m_cap m d)) \<le> v (Var_w d))"
    unfolding ran_forall by (auto simp: b(5) eval_expr_map split: if_splits)
  show ?thesis
    unfolding feasible_def constraints_def fr ball_Un 1 2 3 4 by simp
qed

lemma static_instay_iff:
  "(b, d) \<in> set (instay (static_params bks nd nr cbd)) \<longleftrightarrow>
     stays (static_stay_days [1 .. nd] (map_option start_day \<circ> map_of bks)
              (map_option length_of_stay \<circ> map_of bks) b) d"
proof -
  have "d \<in> set [1 .. nd]"
    if "d \<in> set (sdays (static_stay_days [1 .. nd] (map_option start_day \<circ> map_of bks)
                         (map_option length_of_stay \<circ> map_of bks) b))"
    using that by (auto simp: static_stay_days_def param_def split: option.splits)
  then show ?thesis
    unfolding instay_iff static_params_fields map_of_proj static_stay_days_member by auto
qed

lemma mini_instay_iff:
  "(b, d) \<in> set (in_stay g) \<longleftrightarrow> d \<in> set (days g) \<and> stays (stay_days g b) d"
  by (auto simp: in_stay_iff stay_days_member)

lemma mini_stays_in_horizon:
  assumes "\<forall>(b', s, L, p, q) \<in> set (bookings g). 1 \<le> s" "stays (stay_days g b) d"
  shows "d \<in> set (days g)"
proof -
  from assms(2) have d: "d \<in> set (sdays (stay_days g b))" by auto
  from sdays_mini_lower[OF assms(1) d] sdays_mini_upper[OF d] show ?thesis by (simp add: days_def)
qed

lemma build_static_frame:
  assumes "build_static_lco_model bookings_arg nd nr capacity_by_day = Inr m"
  shows "m_B m = map fst (bookings_or_default bookings_arg)"
    and "m_R m = [1 .. nr]" and "m_D m = [1 .. nd]"
    and "m_start m = map_option start_day \<circ> map_of (bookings_or_default bookings_arg)"
    and "m_length m = map_option length_of_stay \<circ> map_of (bookings_or_default bookings_arg)"
    and "m_price m = map_option price_per_night \<circ> map_of (bookings_or_default bookings_arg)"
    and "m_showp m = map_option show_prob \<circ> map_of (bookings_or_default bookings_arg)"
    and "m_cap m = map_of (capacity_or_default capacity_by_day nd nr)"
    and "m_RevenueFloor m = None" and "m_vals m = Map.empty"
  using static_built(1)[OF build_static_Inr(3)[OF assms refl refl]]
  by (simp_all add: map_of_proj)

lemma build_model_frame:
  assumes "build_model g = Inr m"
  shows "m_B m = B g" and "m_R m = rooms g" and "m_D m = days g"
    and "m_InStay m = set (in_stay g)" and "m_YIDX m = set (yidx (in_stay g) (rooms g))"
    and "m_ContPair m = set (cont g)"
    and "m_RevenueFloor m = None" and "m_vals m = Map.empty"
proof -
  from assms have a: "add_constraints (mini_pre g) (cont g) = Inr m" by (simp add: build_model_eq)
  from mini_built(1)[OF a]
  show "m_B m = B g" and "m_R m = rooms g" and "m_D m = days g"
    and "m_InStay m = set (in_stay g)" and "m_YIDX m = set (yidx (in_stay g) (rooms g))"
    and "m_ContPair m = set (cont g)"
    and "m_RevenueFloor m = None" and "m_vals m = Map.empty"
    by simp_all
qed

subsection \<open>The small instance\<close>

lemma ex_mini_sets:
  "B ex_globals = [1, 2]" "rooms ex_globals = [1, 2]" "days ex_globals = [1, 2, 3]"
  "in_stay ex_globals = [(1, 1), (1, 2), (2, 2), (2, 3)]"
  "cont ex_globals = [(1, 1, 1), (1, 2, 1), (2, 1, 2), (2, 2, 2)]"
  "CAP ex_globals = [(1, 2), (2, 2), (3, 2)]"
  by (simp_all add: B_def rooms_def days_def in_stay_def cont_def CAP_def stay_days_def
        ex_globals_def upto_from_1)

lemma ex_static_sets:
  "instay (static_params ex_bookings 3 2 cbd) = [(1, 1), (1, 2), (2, 2), (2, 3)]"
  "static_cont (static_params ex_bookings 3 2 cbd) = [(1, 1, 1), (1, 2, 1), (2, 1, 2), (2, 2, 2)]"
  by (simp_all add: instay_def static_cont_def static_params_fields static_stay_days_def param_def
        ex_bookings_def upto_from_1)

lemma ex_mini_feasible:
  assumes "build_model ex_globals = Inr m"
  shows "feasible m ex_valuation"
proof -
  from assms have a: "add_constraints (mini_pre ex_globals) (cont ex_globals) = Inr m"
    by (simp add: build_model_eq)
  show ?thesis
    unfolding feasible_built[OF mini_Y mini_C mini_P a mini_pre_fields(12)] mini_pre_fields
      ex_mini_sets
    by (simp add: ex_valuation_def yidx_def ex_globals_def)
qed

lemma ex_static_feasible:
  assumes "build_static_lco_model (Some ex_bookings) 3 2 None = Inr m"
  shows "feasible m ex_valuation"
proof -
  note a = build_static_Inr(3)[OF assms refl refl]
  show ?thesis
    unfolding feasible_built[OF static_Y static_C static_P a static_pre_fields(12)]
      static_pre_fields bookings_or_default_def capacity_or_default_def option.case ex_static_sets
    by (simp add: ex_valuation_def yidx_def ex_bookings_def upto_from_1)
qed

subsection \<open>Continuity along a stay\<close>

lemma mini_instay_interval:
  assumes "map_of (bookings g) b = Some (s, L, p, q)"
  shows "(b, d) \<in> set (in_stay g) \<longleftrightarrow> max 1 s \<le> d \<and> d \<le> min (s + L - 1) (DAYS g)"
proof -
  from assms have "b \<in> set (B g)" using stay_days_Inr_iff[of g b] by (auto simp: stay_days_mini)
  then show ?thesis using assms by (auto simp: in_stay_iff stay_days_mini days_def)
qed

lemma static_instay_interval:
  assumes "map_of bks b = Some spec"
  shows "(b, d) \<in> set (instay (static_params bks nd nr cbd)) \<longleftrightarrow>
     max 1 (start_day spec) \<le> d \<and> d \<le> min (start_day spec + length_of_stay spec - 1) nd"
  unfolding static_instay_iff using assms
  by (auto simp: static_stay_days_def param_def)

lemma continuity_chain:
  assumes f: "feasible m v"
    and I: "\<And>d. (b, d) \<in> m_InStay m \<longleftrightarrow> lo \<le> d \<and> d \<le> hi"
    and c: "\<And>d. (b, d) \<in> m_InStay m \<Longrightarrow> (b, d + 1) \<in> m_InStay m \<Longrightarrow>
        m_Continuity m (b, r, d) = Some (Constr [(1, Var_y b r d)] EQ [(1, Var_y b r (d + 1))] 0)"
    and d: "(b, d1) \<in> m_InStay m" "(b, d2) \<in> m_InStay m"
  shows "v (Var_y b r d1) = v (Var_y b r d2)"
proof -
  have one_step: "v (Var_y b r d) = v (Var_y b r (d + 1))" if "lo \<le> d" "d + 1 \<le> hi" for d
  proof -
    from that have "(b, d) \<in> m_InStay m" "(b, d + 1) \<in> m_InStay m" by (simp_all add: I)
    from feasible_constraint(2)[OF f c[OF this]] show ?thesis by simp
  qed
  have base: "d \<le> hi \<longrightarrow> v (Var_y b r d) = v (Var_y b r lo)" if "lo \<le> d" for d
    using that
  proof (induction d rule: int_ge_induct)
    case base
    then show ?case by simp
  next
    case (step i)
    then show ?case using one_step[of i] by auto
  qed
  from d have "lo \<le> d1" "d1 \<le> hi" "lo \<le> d2" "d2 \<le> hi" by (simp_all add: I)
  with base[of d1] base[of d2] show ?thesis by simp
qed

lemma single_room_chain:
  assumes f: "feasible m v"
    and I: "\<And>d. (b, d) \<in> m_InStay m \<longleftrightarrow> lo \<le> d \<and> d \<le> hi"
    and c: "\<And>d r. r \<in> set rs \<Longrightarrow> (b, d) \<in> m_InStay m \<Longrightarrow> (b, d + 1) \<in> m_InStay m \<Longrightarrow>
        m_Continuity m (b, r, d) = Some (Constr [(1, Var_y b r d)] EQ [(1, Var_y b r (d + 1))] 0)"
    and a: "\<And>d. (b, d) \<in> m_InStay m \<Longrightarrow>
        m_Assign m (b, d) = Some (Constr (map (\<lambda>r. (1, Var_y b r d)) rs) EQ [(1, Var_a b)] 0)"
    and y: "\<And>d r. r \<in> set rs \<Longrightarrow> (b, d) \<in> m_InStay m \<Longrightarrow> (b, r, d) \<in> m_YIDX m"
    and rs: "distinct rs"
    and acc: "v (Var_a b) = 1"
    and ne: "(b, d0) \<in> m_InStay m"
  shows "same_single_room v rs b {d. (b, d) \<in> m_InStay m}"
proof -
  have "\<forall>r \<in> set rs. (b, r, d0) \<in> m_YIDX m" using y ne by blast
  from assign_link_forces(1)[OF f a[OF ne] rs this] acc obtain r where
    r: "r \<in> set rs" "v (Var_y b r d0) = 1" "\<forall>r' \<in> set rs. r' \<noteq> r \<longrightarrow> v (Var_y b r' d0) = 0"
    by blast
  have eq: "v (Var_y b r' d) = v (Var_y b r' d0)" if "r' \<in> set rs" "(b, d) \<in> m_InStay m" for r' d
    by (rule continuity_chain[OF f I c[OF that(1)] that(2) ne])
  show ?thesis
    unfolding same_single_room_def
  proof (intro bexI[of _ r] ballI conjI impI)
    fix d assume "d \<in> {d. (b, d) \<in> m_InStay m}"
    then have d: "(b, d) \<in> m_InStay m" by simp
    show "v (Var_y b r d) = 1" using eq[OF r(1) d] r(2) by simp
    fix r' assume "r' \<in> set rs" "r' \<noteq> r"
    then show "v (Var_y b r' d) = 0" using eq[OF _ d] r(3) by simp
  qed (rule r(1))
qed

lemma mini_single_room:
  assumes b: "build_model g = Inr m" and f: "feasible m v" and acc: "v (Var_a b) = 1"
    and ne: "(b, d0) \<in> set (in_stay g)"
  shows "same_single_room v (rooms g) b {d. (b, d) \<in> set (in_stay g)}"
proof -
  from b have a: "add_constraints (mini_pre g) (cont g) = Inr m" by (simp add: build_model_eq)
  note fr = build_model_frame[OF b]
  from ne have "b \<in> set (B g)" by (simp add: in_stay_iff)
  from stay_days_known[OF this] obtain s L p q where l: "map_of (bookings g) b = Some (s, L, p, q)"
    by blast
  have "same_single_room v (rooms g) b {d. (b, d) \<in> m_InStay m}"
  proof (rule single_room_chain[OF f, where lo = "max 1 s" and hi = "min (s + L - 1) (DAYS g)" and ?d0.0 = d0])
    show "(b, d) \<in> m_InStay m \<longleftrightarrow> max 1 s \<le> d \<and> d \<le> min (s + L - 1) (DAYS g)" for d
      unfolding fr by (rule mini_instay_interval[OF l])
    show "m_Continuity m (b, r, d) = Some (Constr [(1, Var_y b r d)] EQ [(1, Var_y b r (d + 1))] 0)"
      if "r \<in> set (rooms g)" "(b, d) \<in> m_InStay m" "(b, d + 1) \<in> m_InStay m" for d r
      using that unfolding mini_built(4)[OF a] fr by (simp add: cont_iff in_stay_iff)
    show "m_Assign m (b, d)
        = Some (Constr (map (\<lambda>r. (1, Var_y b r d)) (rooms g)) EQ [(1, Var_a b)] 0)"
      if "(b, d) \<in> m_InStay m" for d
      using that unfolding mini_built(3)[OF a] fr by (simp add: in_stay_iff)
    show "(b, r, d) \<in> m_YIDX m" if "r \<in> set (rooms g)" "(b, d) \<in> m_InStay m" for d r
      using that unfolding fr by (simp add: yidx_iff)
    show "distinct (rooms g)" by (simp add: rooms_def)
    show "v (Var_a b) = 1" by (rule acc)
    show "(b, d0) \<in> m_InStay m" unfolding fr by (rule ne)
  qed
  then show ?thesis unfolding fr .
qed

lemma static_single_room:
  assumes b: "build_static_lco_model bookings_arg nd nr capacity_by_day = Inr m"
    and bks: "bks = bookings_or_default bookings_arg"
    and cbd: "cbd = capacity_or_default capacity_by_day nd nr"
    and f: "feasible m v" and acc: "v (Var_a b) = 1"
    and ne: "(b, d0) \<in> set (instay (static_params bks nd nr cbd))"
  shows "same_single_room v [1 .. nr] b {d. (b, d) \<in> set (instay (static_params bks nd nr cbd))}"
proof -
  note a = build_static_Inr(3)[OF b bks cbd]
  from static_built(1)[OF a]
  have I: "m_InStay m = set (instay (static_params bks nd nr cbd))"
    and Y: "m_YIDX m = set (yidx (instay (static_params bks nd nr cbd)) [1 .. nr])" by simp_all
  from ne have "b \<in> fst ` set bks" by (simp add: instay_iff static_params_fields)
  then obtain spec where l: "map_of bks b = Some spec"
    by (metis domD dom_map_of_conv_image_fst)
  have "same_single_room v [1 .. nr] b {d. (b, d) \<in> m_InStay m}"
  proof (rule single_room_chain[OF f, where lo = "max 1 (start_day spec)"
        and hi = "min (start_day spec + length_of_stay spec - 1) nd" and ?d0.0 = d0])
    show "(b, d) \<in> m_InStay m \<longleftrightarrow>
        max 1 (start_day spec) \<le> d \<and> d \<le> min (start_day spec + length_of_stay spec - 1) nd" for d
      unfolding I by (rule static_instay_interval[OF l])
    show "m_Continuity m (b, r, d) = Some (Constr [(1, Var_y b r d)] EQ [(1, Var_y b r (d + 1))] 0)"
      if "r \<in> set [1 .. nr]" "(b, d) \<in> m_InStay m" "(b, d + 1) \<in> m_InStay m" for d r
      using that unfolding static_built(4)[OF a] I
      by (simp add: static_cont_iff instay_iff static_params_fields)
    show "m_Assign m (b, d)
        = Some (Constr (map (\<lambda>r. (1, Var_y b r d)) [1 .. nr]) EQ [(1, Var_a b)] 0)"
      if "(b, d) \<in> m_InStay m" for d
      using that unfolding static_built(3)[OF a] I by (simp add: instay_iff static_params_fields)
    show "(b, r, d) \<in> m_YIDX m" if "r \<in> set [1 .. nr]" "(b, d) \<in> m_InStay m" for d r
      using that unfolding I Y by (simp add: yidx_iff)
    show "distinct [1 .. nr]" by simp
    show "v (Var_a b) = 1" by (rule acc)
    show "(b, d0) \<in> m_InStay m" unfolding I by (rule ne)
  qed
  then show ?thesis unfolding I .
qed

subsection \<open>The revenue expression\<close>

lemma mini_RevExpr:
  assumes b: "build_model g = Inr m" and d: "distinct (map fst (bookings g))"
  shows "m_RevExpr m = map (\<lambda>(b, s, L, p, q). (p * real_of_int L, Var_a b)) (bookings g)"
proof -
  from b have a: "add_constraints (mini_pre g) (cont g) = Inr m" by (simp add: build_model_eq)
  have P: "map_of (map (\<lambda>(b, s, L, p, q). (b, p)) (bookings g))
             = map_option (\<lambda>(s, L, p, q). p) \<circ> map_of (bookings g)"
    and L: "map_of (map (\<lambda>(b, s, L, p, q). (b, L)) (bookings g))
             = map_option (\<lambda>(s, L, p, q). L) \<circ> map_of (bookings g)"
    using map_of_proj[of "\<lambda>(s, L, p, q). p" "bookings g"]
      map_of_proj[of "\<lambda>(s, L, p, q). L" "bookings g"]
    by (simp_all add: case_prod_unfold)
  have "(the (map_of (map (\<lambda>(b, s, L, p, q). (b, p)) (bookings g)) (fst e))
          * real_of_int (the (map_of (map (\<lambda>(b, s, L, p, q). (b, L)) (bookings g)) (fst e))),
         Var_a (fst e))
      = (case e of (b, s, L, p, q) \<Rightarrow> (p * real_of_int L, Var_a b))"
    if "e \<in> set (bookings g)" for e
  proof -
    obtain b s L p q where e: "e = (b, s, L, p, q)" by (cases e)
    from map_of_is_SomeI[OF d that[unfolded e]] show ?thesis by (simp add: P L e)
  qed
  then show ?thesis
    unfolding mini_built(6)[OF a] B_def map_map comp_def by (rule map_cong[OF refl])
qed

lemma static_RevExpr:
  assumes b: "build_static_lco_model bookings_arg nd nr capacity_by_day = Inr m"
    and d: "distinct (map fst (bookings_or_default bookings_arg))"
  shows "m_RevExpr m =
     map (\<lambda>(b, spec). (price_per_night spec * real_of_int (length_of_stay spec), Var_a b))
       (bookings_or_default bookings_arg)"
proof -
  define bks where "bks = bookings_or_default bookings_arg"
  note a = build_static_Inr(3)[OF b bks_def refl]
  have "(the (map_of (map (\<lambda>(b, spec). (b, price_per_night spec)) bks) (fst e))
          * real_of_int (the (map_of (map (\<lambda>(b, spec). (b, length_of_stay spec)) bks) (fst e))),
         Var_a (fst e))
      = (case e of (b, spec) \<Rightarrow> (price_per_night spec * real_of_int (length_of_stay spec), Var_a b))"
    if "e \<in> set bks" for e
  proof -
    obtain b spec where e: "e = (b, spec)" by (cases e)
    from d have "distinct (map fst bks)" by (simp add: bks_def)
    from map_of_is_SomeI[OF this that[unfolded e]] show ?thesis by (simp add: map_of_proj e)
  qed
  then have "m_RevExpr m =
     map (\<lambda>(b, spec). (price_per_night spec * real_of_int (length_of_stay spec), Var_a b)) bks"
    unfolding static_built(6)[OF a] map_map comp_def by (rule map_cong[OF refl])
  then show ?thesis unfolding bks_def .
qed

subsection \<open>Adding a booking to the mini instance\<close>

lemma stay_days_extend:
  assumes "b0 \<in> set (B g)"
  shows "stay_days (g\<lparr>bookings := bookings g @ [e]\<rparr>) b0 = stay_days g b0"
proof -
  from stay_days_known[OF assms] obtain t where "map_of (bookings g) b0 = Some t" by blast
  then show ?thesis by (simp add: stay_days_def map_add_Some_iff)
qed

lemma build_model_extend:
  assumes "\<exists>m. build_model g = Inr m"
  shows "\<exists>m. build_model (g\<lparr>bookings := bookings g @ [e]\<rparr>) = Inr m"
proof -
  let ?g = "g\<lparr>bookings := bookings g @ [e]\<rparr>"
  have r: "rooms ?g = rooms g" "days ?g = days g" "set (B g) \<subseteq> set (B ?g)"
    by (auto simp: rooms_def days_def B_def)
  from assms have c: "rooms g \<noteq> [] \<longrightarrow>
      (\<forall>d \<in> set (days g). \<exists>b \<in> set (B g). d \<in> set (sdays (stay_days g b)))"
    by (simp add: build_model_succeeds_iff)
  have "rooms ?g \<noteq> [] \<longrightarrow>
      (\<forall>d \<in> set (days ?g). \<exists>b \<in> set (B ?g). d \<in> set (sdays (stay_days ?g b)))"
  proof (intro impI ballI)
    fix d assume "rooms ?g \<noteq> []" "d \<in> set (days ?g)"
    with c r obtain b where b: "b \<in> set (B g)" "d \<in> set (sdays (stay_days g b))" by auto
    from b(1) r(3) have "b \<in> set (B ?g)" by blast
    moreover from b(2) have "d \<in> set (sdays (stay_days ?g b))"
      by (simp add: stay_days_extend[OF b(1)])
    ultimately show "\<exists>b \<in> set (B ?g). d \<in> set (sdays (stay_days ?g b))" by blast
  qed
  then show ?thesis by (simp add: build_model_succeeds_iff)
qed

subsection \<open>Stays in a model of the static builder\<close>

lemma ex_zero_default_built:
  "\<exists>m. build_static_lco_model (Some ex_zero_bookings) 3 2 None = Inr m"
  unfolding build_static_succeeds_iff[OF refl refl]
  by (simp add: bookings_or_default_def capacity_or_default_def ex_bookings_def ex_zero_bookings_def
        static_stay_days_def param_def upto_from_1)

lemma static_stay_in_model:
  assumes bs: "build_static_lco_model bookings_arg nd nr capacity_by_day = Inr m"
    and l: "map_of (bookings_or_default bookings_arg) b = Some spec"
  shows "1 \<le> start_day spec" "start_day spec \<le> nd"
    and "static_stay_days (m_D m) (m_start m) (m_length m) b
           = Inr [start_day spec .. min (start_day spec + length_of_stay spec - 1) nd]"
proof -
  from l have "(b, spec) \<in> set (bookings_or_default bookings_arg)" by (rule map_of_SomeD)
  with build_static_Inr(1)[OF bs refl refl]
  show s: "1 \<le> start_day spec" "start_day spec \<le> nd" by auto
  note fr = build_static_frame[OF bs]
  have "static_stay_days [1 .. nd] (m_start m) (m_length m) b
      = Inr [max 1 (start_day spec) .. min (start_day spec + length_of_stay spec - 1) nd]"
    by (rule stay_days_static) (simp_all add: fr l)
  with s(1) show "static_stay_days (m_D m) (m_start m) (m_length m) b
           = Inr [start_day spec .. min (start_day spec + length_of_stay spec - 1) nd]"
    by (simp add: fr(3) max_def)
qed

subsection \<open>Capacity values and bookings without a stay day\<close>







subsection \<open>How a build fails\<close>




subsection \<open>The paths through the drivers\<close>

lemma tier_L3_model_eq:
  "m\<lparr>m_vals := vals\<rparr>
      \<lparr>m_RevenueFloor := Some (Constr (m_RevExpr (m\<lparr>m_vals := vals\<rparr>)) GE [] (Z - eps))\<rparr>
      \<lparr>m_obj := None\<rparr>
      \<lparr>m_obj := Some (minimize, map (\<lambda>d. (1, Var_w d))
          (m_D (m\<lparr>m_vals := vals\<rparr>
                 \<lparr>m_RevenueFloor := Some (Constr (m_RevExpr (m\<lparr>m_vals := vals\<rparr>)) GE [] (Z - eps))\<rparr>
                 \<lparr>m_obj := None\<rparr>)))\<rparr>
     = tier_L3_model m vals Z eps"
  by (simp add: tier_L3_model_def)

lemma second_solve_eq:
  "(case X of Inl e \<Rightarrow> (cs, Inl e) | Inr (res3, vals3) \<Rightarrow> (cs, f vals3))
     = (cs, case X of Inl e \<Rightarrow> Inl e | Inr (res3, vals3) \<Rightarrow> f vals3)"
  by (cases X) auto

lemma run_two_tier_demo_eq:
  "run_two_tier_demo SolverFactory g eps =
     (case build_model g of
        Inl e \<Rightarrow> ([], Inl e)
      | Inr m \<Rightarrow>
     (case get_solver SolverFactory of
        Inl e \<Rightarrow> ([], Inl e)
      | Inr solver \<Rightarrow>
     (case solve solver m of
        Inl e \<Rightarrow> ([m], Inl e)
      | Inr (res2, vals2) \<Rightarrow>
     (case value_expr vals2 (m_RevExpr m) of
        Inl e \<Rightarrow> ([m], Inl e)
      | Inr Z \<Rightarrow>
          if m_RevExpr m = [] then ([m], Inl TrivialConstraint)
          else ([m, tier_L3_model m vals2 Z eps],
                case solve solver (tier_L3_model m vals2 Z eps) of
                  Inl e \<Rightarrow> Inl e
                | Inr (res3, vals3) \<Rightarrow>
                    demo_extract g ((tier_L3_model m vals2 Z eps)\<lparr>m_vals := vals3\<rparr>) Z)))))"
  unfolding run_two_tier_demo_def Let_def tier_L3_model_eq second_solve_eq ..

lemma solve_two_tier_lco_eq:
  "solve_two_tier_lco SolverFactory bookings_arg nd nr capacity_by_day solver_name tol =
     (case build_static_lco_model bookings_arg nd nr capacity_by_day of
        Inl e \<Rightarrow> ([], Inl e)
      | Inr m \<Rightarrow>
     (case SolverFactory solver_name of
        Inl e \<Rightarrow> ([], Inl e)
      | Inr opt \<Rightarrow>
     (case solve opt m of
        Inl e \<Rightarrow> ([m], Inl e)
      | Inr (res2, vals2) \<Rightarrow>
     (case value_expr vals2 (m_RevExpr m) of
        Inl e \<Rightarrow> ([m], Inl e)
      | Inr Z \<Rightarrow>
          if m_RevExpr m = [] then ([m], Inl TrivialConstraint)
          else ([m, tier_L3_model m vals2 Z tol],
                case solve opt (tier_L3_model m vals2 Z tol) of
                  Inl e \<Rightarrow> Inl e
                | Inr (res3, vals3) \<Rightarrow>
                    static_extract ((tier_L3_model m vals2 Z tol)\<lparr>m_vals := vals3\<rparr>) Z)))))"
  unfolding solve_two_tier_lco_def Let_def tier_L3_model_eq second_solve_eq ..

lemma built_first_model:
  "build_model g = Inr m \<Longrightarrow> m_obj m = Some (maximize, m_RevExpr m) \<and> m_RevenueFloor m = None"
  "build_static_lco_model bookings_arg nd nr capacity_by_day = Inr m' \<Longrightarrow>
     m_obj m' = Some (maximize, m_RevExpr m') \<and> m_RevenueFloor m' = None"
proof -
  assume b: "build_model g = Inr m"
  then have a: "add_constraints (mini_pre g) (cont g) = Inr m" by (simp add: build_model_eq)
  from mini_built(7)[OF a] build_model_frame(7)[OF b]
  show "m_obj m = Some (maximize, m_RevExpr m) \<and> m_RevenueFloor m = None" by simp
next
  assume b: "build_static_lco_model bookings_arg nd nr capacity_by_day = Inr m'"
  from static_built(7)[OF build_static_Inr(3)[OF b refl refl]] build_static_frame(9)[OF b]
  show "m_obj m' = Some (maximize, m_RevExpr m') \<and> m_RevenueFloor m' = None" by simp
qed

lemma demo_paths:
  assumes "run_two_tier_demo SolverFactory g eps = (calls, out)"
  obtains (none) "calls = []"
  | (one) m where "build_model g = Inr m" "calls = [m]"
  | (two) m solver res2 vals2 Z where
      "build_model g = Inr m" "get_solver SolverFactory = Inr solver"
      "solve solver m = Inr (res2, vals2)" "value_expr vals2 (m_RevExpr m) = Inr Z"
      "m_RevExpr m \<noteq> []" "calls = [m, tier_L3_model m vals2 Z eps]"
      "out = (case solve solver (tier_L3_model m vals2 Z eps) of
                 Inl e \<Rightarrow> Inl e
               | Inr (res3, vals3) \<Rightarrow>
                   demo_extract g ((tier_L3_model m vals2 Z eps)\<lparr>m_vals := vals3\<rparr>) Z)"
  using assms unfolding run_two_tier_demo_eq
  by (auto split: sum.splits prod.splits if_splits)

lemma static_paths:
  assumes "solve_two_tier_lco SolverFactory bookings_arg nd nr capacity_by_day solver_name tol
             = (calls, out)"
  obtains (none) "calls = []"
  | (one) m where "build_static_lco_model bookings_arg nd nr capacity_by_day = Inr m" "calls = [m]"
  | (two) m opt res2 vals2 Z where
      "build_static_lco_model bookings_arg nd nr capacity_by_day = Inr m"
      "SolverFactory solver_name = Inr opt"
      "solve opt m = Inr (res2, vals2)" "value_expr vals2 (m_RevExpr m) = Inr Z"
      "m_RevExpr m \<noteq> []" "calls = [m, tier_L3_model m vals2 Z tol]"
      "out = (case solve opt (tier_L3_model m vals2 Z tol) of
                 Inl e \<Rightarrow> Inl e
               | Inr (res3, vals3) \<Rightarrow>
                   static_extract ((tier_L3_model m vals2 Z tol)\<lparr>m_vals := vals3\<rparr>) Z)"
  using assms unfolding solve_two_tier_lco_eq
  by (auto split: sum.splits prod.splits if_splits)

lemma tier_L3_model_fields:
  "m_RevenueFloor (tier_L3_model m vals Z eps) = Some (Constr (m_RevExpr m) GE [] (Z - eps))"
  "m_obj (tier_L3_model m vals Z eps) = Some (minimize, map (\<lambda>d. (1, Var_w d)) (m_D m))"
  "m_vals (tier_L3_model m vals Z eps) = vals"
  "m_B (tier_L3_model m vals Z eps) = m_B m" "m_R (tier_L3_model m vals Z eps) = m_R m"
  "m_D (tier_L3_model m vals Z eps) = m_D m" "m_YIDX (tier_L3_model m vals Z eps) = m_YIDX m"
  "m_start (tier_L3_model m vals Z eps) = m_start m"
  "m_length (tier_L3_model m vals Z eps) = m_length m"
  "m_InStay (tier_L3_model m vals Z eps) = m_InStay m"
  "m_RevExpr (tier_L3_model m vals Z eps) = m_RevExpr m"
  by (simp_all add: tier_L3_model_def)

lemma ex_get_solver: "get_solver ex_factory = Inr ex_backend"
  by (simp add: get_solver_def ex_factory_def ex_backend_def)

lemma ex_mini_RevExpr:
  assumes "build_model ex_globals = Inr m"
  shows "m_RevExpr m = [(200, Var_a 1), (320, Var_a 2)]"
  using mini_RevExpr[OF assms] by (simp add: ex_globals_def)

lemma ex_static_RevExpr:
  assumes "build_static_lco_model (Some ex_bookings) 3 2 None = Inr m"
  shows "m_RevExpr m = [(200, Var_a 1), (320, Var_a 2)]"
  using static_RevExpr[OF assms] by (simp add: bookings_or_default_def ex_bookings_def)

lemma ex_demo_calls:
  assumes "build_model ex_globals = Inr m"
  shows "fst (run_two_tier_demo ex_factory ex_globals eps)
     = [m, tier_L3_model m (\<lambda>x. Some (ex_valuation x)) 520 eps]"
proof -
  have s: "solve ex_backend x = Inr (OPTIMAL, \<lambda>x. Some (ex_valuation x))" for x
    by (simp add: ex_backend_def)
  have v: "value_expr (\<lambda>x. Some (ex_valuation x)) (m_RevExpr m) = Inr 520"
    by (simp add: ex_mini_RevExpr[OF assms] value_var_def ex_valuation_def)
  show ?thesis
    unfolding run_two_tier_demo_eq assms ex_get_solver
    by (simp add: s ex_mini_RevExpr[OF assms] value_var_def ex_valuation_def)
qed

lemma ex_static_calls:
  assumes "build_static_lco_model (Some ex_bookings) 3 2 None = Inr m"
  shows "fst (solve_two_tier_lco ex_factory (Some ex_bookings) 3 2 None ''highs'' eps)
     = [m, tier_L3_model m (\<lambda>x. Some (ex_valuation x)) 520 eps]"
proof -
  have s: "solve ex_backend x = Inr (OPTIMAL, \<lambda>x. Some (ex_valuation x))" for x
    by (simp add: ex_backend_def)
  have f: "ex_factory ''highs'' = Inr ex_backend" by (simp add: ex_factory_def)
  have v: "value_expr (\<lambda>x. Some (ex_valuation x)) (m_RevExpr m) = Inr 520"
    by (simp add: ex_static_RevExpr[OF assms] value_var_def ex_valuation_def)
  show ?thesis
    unfolding solve_two_tier_lco_eq assms f
    by (simp add: s ex_static_RevExpr[OF assms] value_var_def ex_valuation_def)
qed

subsection \<open>The status of a solve\<close>

lemma get_solver_from_with_status:
  "get_solver_from (map_sum id (with_status f) \<circ> SolverFactory) names
     = map_sum id (with_status f) (get_solver_from SolverFactory names)"
proof (induction names)
  case Nil
  then show ?case by simp
next
  case (Cons name names)
  show ?case
  proof (cases "SolverFactory name")
    case (Inl e)
    with Cons show ?thesis by simp
  next
    case (Inr solver)
    with Cons show ?thesis
      by (cases "available solver") (simp_all add: with_status_def)
  qed
qed

lemma get_solver_with_status:
  "get_solver (map_sum id (with_status f) \<circ> SolverFactory)
     = map_sum id (with_status f) (get_solver SolverFactory)"
  unfolding get_solver_def by (rule get_solver_from_with_status)

lemma solve_with_status:
  "solve (with_status f s) m = map_sum id (\<lambda>(st, vals). (f st, vals)) (solve s m)"
  by (simp add: with_status_def)

lemma demo_status_ignored:
  "run_two_tier_demo (map_sum id (with_status f) \<circ> SolverFactory) g eps
     = run_two_tier_demo SolverFactory g eps"
proof (cases "build_model g")
  case (Inl e)
  then show ?thesis by (simp add: run_two_tier_demo_eq)
next
  case m: (Inr m)
  show ?thesis
  proof (cases "get_solver SolverFactory")
    case (Inl e)
    with m show ?thesis by (simp add: run_two_tier_demo_eq get_solver_with_status)
  next
    case s: (Inr solver)
    show ?thesis
    proof (cases "solve solver m")
      case (Inl e)
      with m s show ?thesis
        by (simp add: run_two_tier_demo_eq get_solver_with_status solve_with_status)
    next
      case (Inr p)
      obtain res2 vals2 where p: "p = (res2, vals2)" by (cases p)
      show ?thesis
      proof (cases "value_expr vals2 (m_RevExpr m)")
        case (Inl e)
        with m s Inr p show ?thesis
          by (simp add: run_two_tier_demo_eq get_solver_with_status solve_with_status)
      next
        case z: (Inr Z)
        show ?thesis
        proof (cases "solve solver (tier_L3_model m vals2 Z eps)")
          case (Inl e)
          with m s Inr p z show ?thesis
            by (simp add: run_two_tier_demo_eq get_solver_with_status solve_with_status)
        next
          case q: (Inr q)
          obtain res3 vals3 where "q = (res3, vals3)" by (cases q)
          with m s Inr p z q show ?thesis
            by (simp add: run_two_tier_demo_eq get_solver_with_status solve_with_status)
        qed
      qed
    qed
  qed
qed

lemma static_status_ignored:
  "solve_two_tier_lco (map_sum id (with_status f) \<circ> SolverFactory) bookings_arg nd nr
       capacity_by_day solver_name tol
     = solve_two_tier_lco SolverFactory bookings_arg nd nr capacity_by_day solver_name tol"
proof (cases "build_static_lco_model bookings_arg nd nr capacity_by_day")
  case (Inl e)
  then show ?thesis by (simp add: solve_two_tier_lco_eq)
next
  case m: (Inr m)
  show ?thesis
  proof (cases "SolverFactory solver_name")
    case (Inl e)
    with m show ?thesis by (simp add: solve_two_tier_lco_eq)
  next
    case s: (Inr opt)
    show ?thesis
    proof (cases "solve opt m")
      case (Inl e)
      with m s show ?thesis by (simp add: solve_two_tier_lco_eq solve_with_status)
    next
      case (Inr p)
      obtain res2 vals2 where p: "p = (res2, vals2)" by (cases p)
      show ?thesis
      proof (cases "value_expr vals2 (m_RevExpr m)")
        case (Inl e)
        with m s Inr p show ?thesis by (simp add: solve_two_tier_lco_eq solve_with_status)
      next
        case z: (Inr Z)
        show ?thesis
        proof (cases "solve opt (tier_L3_model m vals2 Z tol)")
          case (Inl e)
          with m s Inr p z show ?thesis by (simp add: solve_two_tier_lco_eq solve_with_status)
        next
          case q: (Inr q)
          obtain res3 vals3 where "q = (res3, vals3)" by (cases q)
          with m s Inr p z q show ?thesis
            by (simp add: solve_two_tier_lco_eq solve_with_status)
        qed
      qed
    qed
  qed
qed

lemma ex_get_solvers:
  "get_solver ex_failing_factory = Inr ex_failing_backend"
  "get_solver ex_raising_factory = Inr ex_raising_backend"
  "get_solver ex_silent_factory = Inr ex_silent_backend"
  by (simp_all add: get_solver_def ex_failing_factory_def ex_failing_backend_def
        ex_raising_factory_def ex_raising_backend_def ex_silent_factory_def ex_silent_backend_def)

lemma ex_solves:
  "solve ex_failing_backend x = Inr (INFEASIBLE, \<lambda>x. Some 0)"
  "solve ex_raising_backend x = Inl (BackendError ''no feasible solution'')"
  "solve ex_silent_backend x = Inr (INFEASIBLE, m_vals x)"
  by (simp_all add: ex_failing_backend_def ex_raising_backend_def ex_silent_backend_def)

lemma ex_failing_demo:
  assumes m: "build_model ex_globals = Inr m"
  shows "fst (run_two_tier_demo ex_failing_factory ex_globals eps)
           = [m, tier_L3_model m (\<lambda>x. Some 0) 0 eps]"
    and "\<not> isl (snd (run_two_tier_demo ex_failing_factory ex_globals eps))"
proof -
  note r = ex_mini_RevExpr[OF m] and fr = build_model_frame[OF m]
  show "fst (run_two_tier_demo ex_failing_factory ex_globals eps)
           = [m, tier_L3_model m (\<lambda>x. Some 0) 0 eps]"
    unfolding run_two_tier_demo_eq m ex_get_solvers
    by (simp add: ex_solves r value_var_def)
  show "\<not> isl (snd (run_two_tier_demo ex_failing_factory ex_globals eps))"
    unfolding run_two_tier_demo_eq m ex_get_solvers
    by (simp add: ex_solves r value_var_def demo_extract_def tier_L3_model_fields fr ex_mini_sets)
qed

lemma ex_failing_static:
  assumes m: "build_static_lco_model (Some ex_bookings) 3 2 None = Inr m"
  shows "fst (solve_two_tier_lco ex_failing_factory (Some ex_bookings) 3 2 None ''highs'' eps)
           = [m, tier_L3_model m (\<lambda>x. Some 0) 0 eps]"
    and "\<not> isl (snd (solve_two_tier_lco ex_failing_factory (Some ex_bookings) 3 2 None ''highs'' eps))"
proof -
  note r = ex_static_RevExpr[OF m] and fr = build_static_frame[OF m]
  have f: "ex_failing_factory ''highs'' = Inr ex_failing_backend"
    by (simp add: ex_failing_factory_def)
  show "fst (solve_two_tier_lco ex_failing_factory (Some ex_bookings) 3 2 None ''highs'' eps)
           = [m, tier_L3_model m (\<lambda>x. Some 0) 0 eps]"
    unfolding solve_two_tier_lco_eq m f
    by (simp add: ex_solves r value_var_def)
  show "\<not> isl (snd (solve_two_tier_lco ex_failing_factory (Some ex_bookings) 3 2 None ''highs'' eps))"
    unfolding solve_two_tier_lco_eq m f
    by (simp add: ex_solves r value_var_def static_extract_def tier_L3_model_fields fr
          bookings_or_default_def ex_bookings_def upto_from_1)
qed

section \<open>Extraction\<close>

subsection \<open>The loops\<close>

lemma days_ok_Inr:
  "days_ok m b r ds = Inr ok \<Longrightarrow> ok = room_fits m b ds r"
proof (induction ds)
  case Nil
  then show ?case by (simp add: room_fits_def)
next
  case (Cons d ds)
  show ?case
  proof (cases "(b, r, d) \<in> m_YIDX m")
    case False
    with Cons.prems show ?thesis by (simp add: room_fits_def)
  next
    case True
    with Cons.prems obtain x where x: "m_vals m (Var_y b r d) = Some x"
      by (auto simp: value_var_def split: option.splits)
    show ?thesis
    proof (cases "x \<le> 0.5")
      case True
      with Cons.prems \<open>(b, r, d) \<in> m_YIDX m\<close> x show ?thesis
        by (simp add: value_var_def room_fits_def above_half_def)
    next
      case False
      with Cons.prems \<open>(b, r, d) \<in> m_YIDX m\<close> x have "days_ok m b r ds = Inr ok"
        by (simp add: value_var_def)
      from Cons.IH[OF this] False \<open>(b, r, d) \<in> m_YIDX m\<close> x show ?thesis
        by (simp add: room_fits_def above_half_def)
    qed
  qed
qed

lemma days_ok_total:
  "(\<forall>d \<in> set ds. (b, r, d) \<in> m_YIDX m \<longrightarrow> m_vals m (Var_y b r d) \<noteq> None) \<Longrightarrow>
     \<exists>ok. days_ok m b r ds = Inr ok"
  by (induction ds) (auto simp: value_var_def)

lemma scan_rooms_Inr:
  "scan_rooms m b sd rs = Inr room \<Longrightarrow> room = find (room_fits m b sd) rs"
proof (induction rs)
  case Nil
  then show ?case by simp
next
  case (Cons r rs)
  from Cons.prems obtain ok where ok: "days_ok m b r sd = Inr ok"
    by (cases "days_ok m b r sd") auto
  note f = days_ok_Inr[OF ok]
  show ?case
  proof (cases ok)
    case True
    with Cons.prems ok f show ?thesis by simp
  next
    case False
    with Cons.prems ok have "scan_rooms m b sd rs = Inr room" by simp
    from Cons.IH[OF this] False f show ?thesis by simp
  qed
qed

lemma scan_rooms_total:
  "(\<forall>r \<in> set rs. \<forall>d \<in> set sd. (b, r, d) \<in> m_YIDX m \<longrightarrow> m_vals m (Var_y b r d) \<noteq> None) \<Longrightarrow>
     \<exists>room. scan_rooms m b sd rs = Inr room"
proof (induction rs)
  case Nil
  then show ?case by simp
next
  case (Cons r rs)
  then have "\<forall>d \<in> set sd. (b, r, d) \<in> m_YIDX m \<longrightarrow> m_vals m (Var_y b r d) \<noteq> None" by simp
  from days_ok_total[OF this] obtain ok where "days_ok m b r sd = Inr ok" by blast
  moreover from Cons obtain room where "scan_rooms m b sd rs = Inr room" by auto
  ultimately show ?case by simp
qed

lemma accepted_Inr:
  "accepted m bs = Inr acc \<Longrightarrow> acc = [b \<leftarrow> bs. above_half (m_vals m) (Var_a b)]"
proof (induction bs arbitrary: acc)
  case Nil
  then show ?case by simp
next
  case (Cons b bs)
  from Cons.prems obtain x rest where x: "m_vals m (Var_a b) = Some x"
    and r: "accepted m bs = Inr rest" and a: "acc = (if x > 0.5 then b # rest else rest)"
    by (auto simp: value_var_def split: option.splits sum.splits)
  from Cons.IH[OF r] x a show ?case by (simp add: above_half_def)
qed

lemma accepted_total:
  "(\<forall>b \<in> set bs. m_vals m (Var_a b) \<noteq> None) \<Longrightarrow> \<exists>acc. accepted m bs = Inr acc"
  by (induction bs) (auto simp: value_var_def)

lemma room_assignments_of_Inr:
  "room_assignments_of m bs = Inr ras \<Longrightarrow>
     map fst ras = bs \<and>
     (\<forall>(b, room, sd) \<in> set ras.
         static_stay_days (m_D m) (m_start m) (m_length m) b = Inr sd \<and>
         room = find (room_fits m b sd) (m_R m))"
proof (induction bs arbitrary: ras)
  case Nil
  then show ?case by simp
next
  case (Cons b bs)
  from Cons.prems obtain sd room rest where
    sd: "static_stay_days (m_D m) (m_start m) (m_length m) b = Inr sd"
    and ro: "scan_rooms m b sd (m_R m) = Inr room"
    and re: "room_assignments_of m bs = Inr rest"
    and ras: "ras = (b, room, sd) # rest"
    by (auto split: sum.splits)
  from Cons.IH[OF re] scan_rooms_Inr[OF ro] sd ras show ?case by simp
qed

lemma room_assignments_of_total:
  assumes "\<forall>b \<in> set bs. \<exists>sd. static_stay_days (m_D m) (m_start m) (m_length m) b = Inr sd"
    and "\<forall>k \<in> m_YIDX m. case k of (b, r, d) \<Rightarrow> m_vals m (Var_y b r d) \<noteq> None"
  shows "\<exists>ras. room_assignments_of m bs = Inr ras"
  using assms(1)
proof (induction bs)
  case Nil
  then show ?case by simp
next
  case (Cons b bs)
  then obtain sd where sd: "static_stay_days (m_D m) (m_start m) (m_length m) b = Inr sd" by auto
  have "\<forall>r \<in> set (m_R m). \<forall>d \<in> set sd. (b, r, d) \<in> m_YIDX m \<longrightarrow> m_vals m (Var_y b r d) \<noteq> None"
    using assms(2) by auto
  from scan_rooms_total[OF this] obtain room where "scan_rooms m b sd (m_R m) = Inr room" by blast
  moreover from Cons obtain rest where "room_assignments_of m bs = Inr rest" by auto
  ultimately show ?case using sd by simp
qed

lemma assignments_Inr:
  "assignments g m bs = Inr asg \<Longrightarrow>
     map fst asg = [b \<leftarrow> bs. above_half (m_vals m) (Var_a b)] \<and>
     (\<forall>(b, sd, room) \<in> set asg.
         stay_days g b = Inr sd \<and> room = find (room_fits m b sd) (m_R m))"
proof (induction bs arbitrary: asg)
  case Nil
  then show ?case by simp
next
  case (Cons b bs)
  from Cons.prems obtain x where x: "m_vals m (Var_a b) = Some x"
    by (auto simp: value_var_def split: option.splits)
  show ?case
  proof (cases "x > 0.5")
    case False
    with Cons.prems x have "assignments g m bs = Inr asg" by (simp add: value_var_def)
    from Cons.IH[OF this] False x show ?thesis by (simp add: above_half_def)
  next
    case True
    with Cons.prems x obtain sd room rest where
      sd: "stay_days g b = Inr sd"
      and ro: "scan_rooms m b sd (m_R m) = Inr room"
      and re: "assignments g m bs = Inr rest"
      and asg: "asg = (b, sd, room) # rest"
      by (auto simp: value_var_def split: sum.splits)
    from Cons.IH[OF re] scan_rooms_Inr[OF ro] sd asg True x show ?thesis
      by (simp add: above_half_def)
  qed
qed

lemma assignments_total:
  assumes "\<forall>b \<in> set bs. m_vals m (Var_a b) \<noteq> None \<and> (\<exists>sd. stay_days g b = Inr sd)"
    and "\<forall>k \<in> m_YIDX m. case k of (b, r, d) \<Rightarrow> m_vals m (Var_y b r d) \<noteq> None"
  shows "\<exists>asg. assignments g m bs = Inr asg"
  using assms(1)
proof (induction bs)
  case Nil
  then show ?case by simp
next
  case (Cons b bs)
  then obtain x sd where x: "m_vals m (Var_a b) = Some x" and sd: "stay_days g b = Inr sd" by auto
  have "\<forall>r \<in> set (m_R m). \<forall>d \<in> set sd. (b, r, d) \<in> m_YIDX m \<longrightarrow> m_vals m (Var_y b r d) \<noteq> None"
    using assms(2) by auto
  from scan_rooms_total[OF this] obtain room where "scan_rooms m b sd (m_R m) = Inr room" by blast
  moreover from Cons obtain rest where "assignments g m bs = Inr rest" by auto
  ultimately show ?case using x sd by (simp add: value_var_def)
qed

lemma slack_values_Inr:
  "slack_values vals ds = Inr sl \<Longrightarrow> map fst sl = ds \<and> (\<forall>(d, x) \<in> set sl. vals (Var_w d) = Some x)"
proof (induction ds arbitrary: sl)
  case Nil
  then show ?case by simp
next
  case (Cons d ds)
  from Cons.prems obtain x rest where "vals (Var_w d) = Some x" "slack_values vals ds = Inr rest"
    "sl = (d, x) # rest"
    by (auto simp: value_var_def split: option.splits sum.splits)
  with Cons.IH[of rest] show ?case by simp
qed

lemma slack_values_total:
  "(\<forall>d \<in> set ds. vals (Var_w d) \<noteq> None) \<Longrightarrow> \<exists>sl. slack_values vals ds = Inr sl"
  by (induction ds) (auto simp: value_var_def)

lemma find_room_cases:
  "case find P rs of Some r \<Rightarrow> r \<in> set rs \<and> P r | None \<Rightarrow> (\<forall>r \<in> set rs. \<not> P r)"
  by (induction rs) (auto split: option.splits)

lemma demo_extract_Inr:
  assumes "demo_extract g m Z = Inr res"
  shows "map fst (r_accepted_bookings res) = [b \<leftarrow> m_B m. above_half (m_vals m) (Var_a b)]"
    and "\<forall>(b, sd, room) \<in> set (r_accepted_bookings res).
           stay_days g b = Inr sd \<and> room = find (room_fits m b sd) (m_R m)"
    and "r_Z2 res = Z"
    and "map fst (r_daily_slack res) = m_D m"
    and "\<forall>(d, x) \<in> set (r_daily_slack res). m_vals m (Var_w d) = Some x"
    and "r_slack_sum res = sum_list (map snd (r_daily_slack res))"
proof -
  from assms obtain ds asg where ds: "slack_values (m_vals m) (m_D m) = Inr ds"
    and asg: "assignments g m (m_B m) = Inr asg"
    and res: "res = \<lparr>r_Z2 = Z, r_slack_sum = sum_list (map snd ds), r_daily_slack = ds,
                     r_accepted_bookings = asg\<rparr>"
    by (auto simp: demo_extract_def split: sum.splits)
  from assignments_Inr[OF asg] slack_values_Inr[OF ds]
  show "map fst (r_accepted_bookings res) = [b \<leftarrow> m_B m. above_half (m_vals m) (Var_a b)]"
    and "\<forall>(b, sd, room) \<in> set (r_accepted_bookings res).
           stay_days g b = Inr sd \<and> room = find (room_fits m b sd) (m_R m)"
    and "r_Z2 res = Z"
    and "map fst (r_daily_slack res) = m_D m"
    and "\<forall>(d, x) \<in> set (r_daily_slack res). m_vals m (Var_w d) = Some x"
    and "r_slack_sum res = sum_list (map snd (r_daily_slack res))"
    by (simp_all add: res)
qed

lemma static_extract_Inr:
  assumes "static_extract m Z = Inr res"
  shows "accepted_bookings res = [b \<leftarrow> m_B m. above_half (m_vals m) (Var_a b)]"
    and "map fst (room_assignments res) = accepted_bookings res"
    and "\<forall>(b, room, sd) \<in> set (room_assignments res).
           static_stay_days (m_D m) (m_start m) (m_length m) b = Inr sd \<and>
           room = find (room_fits m b sd) (m_R m)"
    and "revenue_L2 res = Z"
    and "map fst (slack_by_day res) = m_D m"
    and "\<forall>(d, x) \<in> set (slack_by_day res). m_vals m (Var_w d) = Some x"
    and "slack_L3 res = sum_list (map snd (slack_by_day res))"
proof -
  from assms obtain ds acc ras where ds: "slack_values (m_vals m) (m_D m) = Inr ds"
    and acc: "accepted m (m_B m) = Inr acc"
    and ras: "room_assignments_of m acc = Inr ras"
    and res: "res = \<lparr>revenue_L2 = Z, slack_L3 = sum_list (map snd ds), accepted_bookings = acc,
                     room_assignments = ras, slack_by_day = ds\<rparr>"
    by (auto simp: static_extract_def split: sum.splits)
  from accepted_Inr[OF acc] room_assignments_of_Inr[OF ras] slack_values_Inr[OF ds]
  show "accepted_bookings res = [b \<leftarrow> m_B m. above_half (m_vals m) (Var_a b)]"
    and "map fst (room_assignments res) = accepted_bookings res"
    and "\<forall>(b, room, sd) \<in> set (room_assignments res).
           static_stay_days (m_D m) (m_start m) (m_length m) b = Inr sd \<and>
           room = find (room_fits m b sd) (m_R m)"
    and "revenue_L2 res = Z"
    and "map fst (slack_by_day res) = m_D m"
    and "\<forall>(d, x) \<in> set (slack_by_day res). m_vals m (Var_w d) = Some x"
    and "slack_L3 res = sum_list (map snd (slack_by_day res))"
    by (simp_all add: res)
qed

lemma declared_valued:
  assumes "\<forall>x \<in> declared m. m_vals m x \<noteq> None"
  shows "\<forall>b \<in> set (m_B m). m_vals m (Var_a b) \<noteq> None"
    and "\<forall>k \<in> m_YIDX m. case k of (b, r, d) \<Rightarrow> m_vals m (Var_y b r d) \<noteq> None"
    and "\<forall>d \<in> set (m_D m). m_vals m (Var_w d) \<noteq> None"
proof -
  show "\<forall>b \<in> set (m_B m). m_vals m (Var_a b) \<noteq> None"
    using assms by (simp add: declared_a[symmetric])
  show "\<forall>d \<in> set (m_D m). m_vals m (Var_w d) \<noteq> None"
    using assms by (simp add: declared_w[symmetric])
  show "\<forall>k \<in> m_YIDX m. case k of (b, r, d) \<Rightarrow> m_vals m (Var_y b r d) \<noteq> None"
  proof
    fix k assume k: "k \<in> m_YIDX m"
    obtain b r d where "k = (b, r, d)" by (cases k)
    with k assms show "case k of (b, r, d) \<Rightarrow> m_vals m (Var_y b r d) \<noteq> None"
      by (simp add: declared_y[symmetric])
  qed
qed

lemma demo_extract_total:
  assumes v: "\<forall>x \<in> declared m. m_vals m x \<noteq> None" and B: "set (m_B m) \<subseteq> set (B g)"
  shows "\<exists>res. demo_extract g m Z = Inr res"
proof -
  note d = declared_valued[OF v]
  from slack_values_total[OF d(3)] obtain ds where ds: "slack_values (m_vals m) (m_D m) = Inr ds"
    by blast
  have "\<forall>b \<in> set (m_B m). m_vals m (Var_a b) \<noteq> None \<and> (\<exists>sd. stay_days g b = Inr sd)"
    using d(1) B stay_days_Inr_iff[of g] by blast
  from assignments_total[OF this d(2)] obtain asg where "assignments g m (m_B m) = Inr asg"
    by blast
  with ds show ?thesis by (simp add: demo_extract_def)
qed

lemma static_extract_total:
  assumes v: "\<forall>x \<in> declared m. m_vals m x \<noteq> None"
    and P: "\<forall>b \<in> set (m_B m). m_start m b \<noteq> None \<and> m_length m b \<noteq> None"
  shows "\<exists>res. static_extract m Z = Inr res"
proof -
  note d = declared_valued[OF v]
  from slack_values_total[OF d(3)] obtain ds where ds: "slack_values (m_vals m) (m_D m) = Inr ds"
    by blast
  from accepted_total[OF d(1)] obtain acc where acc: "accepted m (m_B m) = Inr acc" by blast
  from accepted_Inr[OF acc] have "set acc \<subseteq> set (m_B m)" by auto
  have "\<forall>b \<in> set acc. \<exists>sd. static_stay_days (m_D m) (m_start m) (m_length m) b = Inr sd"
  proof
    fix b assume "b \<in> set acc"
    with \<open>set acc \<subseteq> set (m_B m)\<close> P obtain s L where "m_start m b = Some s" "m_length m b = Some L"
      by blast
    then show "\<exists>sd. static_stay_days (m_D m) (m_start m) (m_length m) b = Inr sd"
      by (simp add: static_stay_days_def param_def)
  qed
  from room_assignments_of_total[OF this d(2)] obtain ras where
    "room_assignments_of m acc = Inr ras" by blast
  with ds acc show ?thesis by (simp add: static_extract_def)
qed

lemma room_found:
  "room = find (room_fits m b sd) rs \<Longrightarrow>
     (case room of Some r \<Rightarrow> r \<in> set rs \<and> room_fits m b sd r
                 | None \<Rightarrow> (\<forall>r \<in> set rs. \<not> room_fits m b sd r))"
  using find_room_cases[where P = "room_fits m b sd" and rs = rs] by simp

lemma declared_vals_upd: "declared (m\<lparr>m_vals := vals\<rparr>) = declared m"
  by (simp add: declared_def)

lemma demo_result_path:
  assumes "run_two_tier_demo SolverFactory g eps = (calls, Inr res)"
  obtains m solver res2 vals2 Z res3 vals3 where
    "build_model g = Inr m" "get_solver SolverFactory = Inr solver"
    "solve solver m = Inr (res2, vals2)" "value_expr vals2 (m_RevExpr m) = Inr Z"
    "calls = [m, tier_L3_model m vals2 Z eps]"
    "solve solver (tier_L3_model m vals2 Z eps) = Inr (res3, vals3)"
    "demo_extract g ((tier_L3_model m vals2 Z eps)\<lparr>m_vals := vals3\<rparr>) Z = Inr res"
  using assms unfolding run_two_tier_demo_eq
  by (auto split: sum.splits prod.splits if_splits)

lemma static_result_path:
  assumes "solve_two_tier_lco SolverFactory bookings_arg nd nr capacity_by_day solver_name tol
             = (calls, Inr res)"
  obtains m opt res2 vals2 Z res3 vals3 where
    "build_static_lco_model bookings_arg nd nr capacity_by_day = Inr m"
    "SolverFactory solver_name = Inr opt"
    "solve opt m = Inr (res2, vals2)" "value_expr vals2 (m_RevExpr m) = Inr Z"
    "calls = [m, tier_L3_model m vals2 Z tol]"
    "solve opt (tier_L3_model m vals2 Z tol) = Inr (res3, vals3)"
    "static_extract ((tier_L3_model m vals2 Z tol)\<lparr>m_vals := vals3\<rparr>) Z = Inr res"
  using assms unfolding solve_two_tier_lco_eq
  by (auto split: sum.splits prod.splits if_splits)

lemma demo_second_solve_total:
  assumes r: "run_two_tier_demo SolverFactory g eps = ([m1, m2], out)"
    and s: "get_solver SolverFactory = Inr solver" "solve solver m2 = Inr (st, vals3)"
    and v: "\<forall>x \<in> declared m2. vals3 x \<noteq> None"
  shows "\<exists>res. out = Inr res"
  using r
proof (cases rule: demo_paths)
  case none
  then show ?thesis by simp
next
  case (one m)
  then show ?thesis by simp
next
  case (two m solver' res2 vals2 Z)
  from two(2,6) s have o: "out = demo_extract g (m2\<lparr>m_vals := vals3\<rparr>) Z"
    by (simp add: two(7))
  have "set (m_B (m2\<lparr>m_vals := vals3\<rparr>)) \<subseteq> set (B g)"
    using two(6) build_model_frame(1)[OF two(1)] by (simp add: tier_L3_model_fields)
  moreover have "\<forall>x \<in> declared (m2\<lparr>m_vals := vals3\<rparr>). m_vals (m2\<lparr>m_vals := vals3\<rparr>) x \<noteq> None"
    using v by (simp add: declared_vals_upd)
  ultimately show ?thesis unfolding o by (rule demo_extract_total[rotated])
qed

lemma static_second_solve_total:
  assumes r: "solve_two_tier_lco SolverFactory bookings_arg nd nr capacity_by_day solver_name tol
                = ([m1, m2], out)"
    and s: "SolverFactory solver_name = Inr opt" "solve opt m2 = Inr (st, vals3)"
    and v: "\<forall>x \<in> declared m2. vals3 x \<noteq> None"
  shows "\<exists>res. out = Inr res"
  using r
proof (cases rule: static_paths)
  case none
  then show ?thesis by simp
next
  case (one m)
  then show ?thesis by simp
next
  case (two m opt' res2 vals2 Z)
  from two(2,6) s have o: "out = static_extract (m2\<lparr>m_vals := vals3\<rparr>) Z"
    by (simp add: two(7))
  have "\<forall>b \<in> set (m_B (m2\<lparr>m_vals := vals3\<rparr>)).
          m_start (m2\<lparr>m_vals := vals3\<rparr>) b \<noteq> None \<and> m_length (m2\<lparr>m_vals := vals3\<rparr>) b \<noteq> None"
  proof
    fix b assume "b \<in> set (m_B (m2\<lparr>m_vals := vals3\<rparr>))"
    with two(6) build_static_frame(1)[OF two(1)]
    have "b \<in> fst ` set (bookings_or_default bookings_arg)"
      by (simp add: tier_L3_model_fields)
    then have "map_of (bookings_or_default bookings_arg) b \<noteq> None"
      by (simp add: map_of_eq_None_iff)
    with two(6) build_static_frame(4,5)[OF two(1)]
    show "m_start (m2\<lparr>m_vals := vals3\<rparr>) b \<noteq> None \<and> m_length (m2\<lparr>m_vals := vals3\<rparr>) b \<noteq> None"
      by (auto simp: tier_L3_model_fields)
  qed
  moreover have "\<forall>x \<in> declared (m2\<lparr>m_vals := vals3\<rparr>). m_vals (m2\<lparr>m_vals := vals3\<rparr>) x \<noteq> None"
    using v by (simp add: declared_vals_upd)
  ultimately show ?thesis unfolding o by (rule static_extract_total[rotated])
qed

subsection \<open>The small instance\<close>

lemma ex_stay_days:
  "stay_days ex_globals 1 = Inr [1, 2]" "stay_days ex_globals 2 = Inr [2, 3]"
  by (simp_all add: stay_days_def ex_globals_def upto_from_1)

lemma ex_static_stay_days:
  "static_stay_days [1, 2, 3] (map_option start_day \<circ> map_of ex_bookings)
     (map_option length_of_stay \<circ> map_of ex_bookings) 1 = Inr [1, 2]"
  "static_stay_days [1, 2, 3] (map_option start_day \<circ> map_of ex_bookings)
     (map_option length_of_stay \<circ> map_of ex_bookings) 2 = Inr [2, 3]"
  by (simp_all add: static_stay_days_def param_def ex_bookings_def)

lemma ex_demo_extract:
  assumes "m_B m = [1, 2]" "m_R m = [1, 2]" "m_D m = [1, 2, 3]"
    and "m_YIDX m = set (yidx [(1, 1), (1, 2), (2, 2), (2, 3)] [1, 2])"
  shows "demo_extract ex_globals (m\<lparr>m_vals := \<lambda>x. Some (ex_valuation x)\<rparr>) Z
     = Inr \<lparr>r_Z2 = Z, r_slack_sum = 0, r_daily_slack = [(1, 0), (2, 0), (3, 0)],
            r_accepted_bookings = [(1, [1, 2], Some 1), (2, [2, 3], Some 2)]\<rparr>"
    and "demo_extract ex_globals (m\<lparr>m_vals := ex_split_vals\<rparr>) Z
     = Inr \<lparr>r_Z2 = Z, r_slack_sum = 0, r_daily_slack = [(1, 0), (2, 0), (3, 0)],
            r_accepted_bookings = [(1, [1, 2], None), (2, [2, 3], None)]\<rparr>"
  by (simp_all add: demo_extract_def assms value_var_def ex_valuation_def ex_split_vals_def
        ex_stay_days yidx_def)

lemma ex_static_extract:
  assumes "m_B m = [1, 2]" "m_R m = [1, 2]" "m_D m = [1, 2, 3]"
    and "m_YIDX m = set (yidx [(1, 1), (1, 2), (2, 2), (2, 3)] [1, 2])"
    and "m_start m = map_option start_day \<circ> map_of ex_bookings"
    and "m_length m = map_option length_of_stay \<circ> map_of ex_bookings"
  shows "static_extract (m\<lparr>m_vals := \<lambda>x. Some (ex_valuation x)\<rparr>) Z
     = Inr \<lparr>revenue_L2 = Z, slack_L3 = 0, accepted_bookings = [1, 2],
            room_assignments = [(1, Some 1, [1, 2]), (2, Some 2, [2, 3])],
            slack_by_day = [(1, 0), (2, 0), (3, 0)]\<rparr>"
    and "static_extract (m\<lparr>m_vals := ex_split_vals\<rparr>) Z
     = Inr \<lparr>revenue_L2 = Z, slack_L3 = 0, accepted_bookings = [1, 2],
            room_assignments = [(1, None, [1, 2]), (2, None, [2, 3])],
            slack_by_day = [(1, 0), (2, 0), (3, 0)]\<rparr>"
  by (simp_all add: static_extract_def assms value_var_def ex_valuation_def ex_split_vals_def
        ex_static_stay_days yidx_def)

lemma ex_mini_second_model:
  assumes "build_model ex_globals = Inr m"
  shows "m_B (tier_L3_model m vals Z eps) = [1, 2]" "m_R (tier_L3_model m vals Z eps) = [1, 2]"
    "m_D (tier_L3_model m vals Z eps) = [1, 2, 3]"
    "m_YIDX (tier_L3_model m vals Z eps) = set (yidx [(1, 1), (1, 2), (2, 2), (2, 3)] [1, 2])"
  using build_model_frame(1,2,3,5)[OF assms]
  by (simp_all add: tier_L3_model_fields ex_mini_sets)

lemma ex_static_second_model:
  assumes "build_static_lco_model (Some ex_bookings) 3 2 None = Inr m"
  shows "m_B (tier_L3_model m vals Z eps) = [1, 2]" "m_R (tier_L3_model m vals Z eps) = [1, 2]"
    "m_D (tier_L3_model m vals Z eps) = [1, 2, 3]"
    "m_YIDX (tier_L3_model m vals Z eps) = set (yidx [(1, 1), (1, 2), (2, 2), (2, 3)] [1, 2])"
    "m_start (tier_L3_model m vals Z eps) = map_option start_day \<circ> map_of ex_bookings"
    "m_length (tier_L3_model m vals Z eps) = map_option length_of_stay \<circ> map_of ex_bookings"
proof -
  have b: "bookings_or_default (Some ex_bookings) = ex_bookings"
    by (simp add: bookings_or_default_def)
  have k: "map fst ex_bookings = [1, 2]" by (simp add: ex_bookings_def)
  from build_static_frame(1,2,3,4,5)[OF assms, unfolded b k]
  show "m_B (tier_L3_model m vals Z eps) = [1, 2]" "m_R (tier_L3_model m vals Z eps) = [1, 2]"
    "m_D (tier_L3_model m vals Z eps) = [1, 2, 3]"
    "m_start (tier_L3_model m vals Z eps) = map_option start_day \<circ> map_of ex_bookings"
    "m_length (tier_L3_model m vals Z eps) = map_option length_of_stay \<circ> map_of ex_bookings"
    by (simp_all add: tier_L3_model_fields upto_from_1)
  from static_built(1)[OF build_static_Inr(3)[OF assms refl refl]]
  have "m_YIDX m = set (yidx (instay (static_params ex_bookings 3 2
                                  (capacity_or_default None 3 2))) [1 .. 2])"
    by (simp add: b)
  then show "m_YIDX (tier_L3_model m vals Z eps)
      = set (yidx [(1, 1), (1, 2), (2, 2), (2, 3)] [1, 2])"
    by (simp add: tier_L3_model_fields ex_static_sets upto_from_1)
qed

lemma ex_demo_run_eq:
  assumes "build_model ex_globals = Inr m"
  shows "ex_demo_run =
     ([m, tier_L3_model m (\<lambda>x. Some (ex_valuation x)) 520 default_eps],
      Inr \<lparr>r_Z2 = 520, r_slack_sum = 0, r_daily_slack = [(1, 0), (2, 0), (3, 0)],
           r_accepted_bookings = [(1, [1, 2], Some 1), (2, [2, 3], Some 2)]\<rparr>)"
proof -
  have s: "solve ex_backend x = Inr (OPTIMAL, \<lambda>x. Some (ex_valuation x))" for x
    by (simp add: ex_backend_def)
  show ?thesis
    unfolding ex_demo_run_def run_two_tier_demo_eq assms ex_get_solver
    by (simp add: s ex_mini_RevExpr[OF assms] value_var_def ex_valuation_def
          ex_demo_extract(1)[OF ex_mini_second_model[OF assms], unfolded ex_valuation_def])
qed

lemma ex_static_run_eq:
  assumes "build_static_lco_model (Some ex_bookings) 3 2 None = Inr m"
  shows "ex_static_run =
     ([m, tier_L3_model m (\<lambda>x. Some (ex_valuation x)) 520 default_eps],
      Inr \<lparr>revenue_L2 = 520, slack_L3 = 0, accepted_bookings = [1, 2],
           room_assignments = [(1, Some 1, [1, 2]), (2, Some 2, [2, 3])],
           slack_by_day = [(1, 0), (2, 0), (3, 0)]\<rparr>)"
proof -
  have s: "solve ex_backend x = Inr (OPTIMAL, \<lambda>x. Some (ex_valuation x))" for x
    by (simp add: ex_backend_def)
  have f: "ex_factory ''highs'' = Inr ex_backend" by (simp add: ex_factory_def)
  show ?thesis
    unfolding ex_static_run_def solve_two_tier_lco_eq assms f
    by (simp add: s ex_static_RevExpr[OF assms] value_var_def ex_valuation_def
          ex_static_extract(1)[OF ex_static_second_model[OF assms], unfolded ex_valuation_def])
qed

section \<open>The drivers consult the backend at the models they hand to it\<close>

lemma demo_solver_agree:
  assumes h: "run_two_tier_demo SolverFactory g eps = (calls, out)"
    and s: "get_solver SolverFactory = Inr solver" "get_solver SolverFactory' = Inr solver'"
    and a: "\<forall>m \<in> set calls. solve solver' m = solve solver m"
  shows "run_two_tier_demo SolverFactory' g eps = (calls, out)"
proof (cases "build_model g")
  case (Inl e)
  with h show ?thesis by (simp add: run_two_tier_demo_eq)
next
  case (Inr m)
  note b = Inr
  show ?thesis
  proof (cases "solve solver m")
    case (Inl e)
    with h b s have c: "calls = [m]" "out = Inl e" by (simp_all add: run_two_tier_demo_eq)
    with a Inl have "solve solver' m = Inl e" by simp
    with b s c show ?thesis by (simp add: run_two_tier_demo_eq)
  next
    case (Inr rv)
    obtain res2 vals2 where rv: "rv = (res2, vals2)" by (cases rv)
    note s1 = Inr[unfolded rv]
    show ?thesis
    proof (cases "value_expr vals2 (m_RevExpr m)")
      case (Inl e)
      with h b s s1 have c: "calls = [m]" "out = Inl e" by (simp_all add: run_two_tier_demo_eq)
      with a s1 have "solve solver' m = Inr (res2, vals2)" by simp
      with b s c Inl show ?thesis by (simp add: run_two_tier_demo_eq)
    next
      case (Inr Z)
      show ?thesis
      proof (cases "m_RevExpr m = []")
        case True
        with h b s s1 Inr have c: "calls = [m]" "out = Inl TrivialConstraint"
          by (simp_all add: run_two_tier_demo_eq)
        with a s1 have "solve solver' m = Inr (res2, vals2)" by simp
        with b s c Inr True show ?thesis by (simp add: run_two_tier_demo_eq)
      next
        case False
        with h b s s1 Inr have c: "calls = [m, tier_L3_model m vals2 Z eps]"
          "out = (case solve solver (tier_L3_model m vals2 Z eps) of
                    Inl e \<Rightarrow> Inl e
                  | Inr (res3, vals3) \<Rightarrow>
                      demo_extract g ((tier_L3_model m vals2 Z eps)\<lparr>m_vals := vals3\<rparr>) Z)"
          by (simp_all add: run_two_tier_demo_eq)
        with a s1 have "solve solver' m = Inr (res2, vals2)"
          "solve solver' (tier_L3_model m vals2 Z eps) = solve solver (tier_L3_model m vals2 Z eps)"
          by simp_all
        with b s c Inr False show ?thesis by (simp add: run_two_tier_demo_eq)
      qed
    qed
  qed
qed

lemma static_solver_agree:
  assumes h: "solve_two_tier_lco SolverFactory bookings_arg nd nr capacity_by_day solver_name tol
                = (calls, out)"
    and s: "SolverFactory solver_name = Inr opt" "SolverFactory' solver_name' = Inr opt'"
    and a: "\<forall>m \<in> set calls. solve opt' m = solve opt m"
  shows "solve_two_tier_lco SolverFactory' bookings_arg nd nr capacity_by_day solver_name' tol
           = (calls, out)"
proof (cases "build_static_lco_model bookings_arg nd nr capacity_by_day")
  case (Inl e)
  with h show ?thesis by (simp add: solve_two_tier_lco_eq)
next
  case (Inr m)
  note b = Inr
  show ?thesis
  proof (cases "solve opt m")
    case (Inl e)
    with h b s have c: "calls = [m]" "out = Inl e" by (simp_all add: solve_two_tier_lco_eq)
    with a Inl have "solve opt' m = Inl e" by simp
    with b s c show ?thesis by (simp add: solve_two_tier_lco_eq)
  next
    case (Inr rv)
    obtain res2 vals2 where rv: "rv = (res2, vals2)" by (cases rv)
    note s1 = Inr[unfolded rv]
    show ?thesis
    proof (cases "value_expr vals2 (m_RevExpr m)")
      case (Inl e)
      with h b s s1 have c: "calls = [m]" "out = Inl e" by (simp_all add: solve_two_tier_lco_eq)
      with a s1 have "solve opt' m = Inr (res2, vals2)" by simp
      with b s c Inl show ?thesis by (simp add: solve_two_tier_lco_eq)
    next
      case (Inr Z)
      show ?thesis
      proof (cases "m_RevExpr m = []")
        case True
        with h b s s1 Inr have c: "calls = [m]" "out = Inl TrivialConstraint"
          by (simp_all add: solve_two_tier_lco_eq)
        with a s1 have "solve opt' m = Inr (res2, vals2)" by simp
        with b s c Inr True show ?thesis by (simp add: solve_two_tier_lco_eq)
      next
        case False
        with h b s s1 Inr have c: "calls = [m, tier_L3_model m vals2 Z tol]"
          "out = (case solve opt (tier_L3_model m vals2 Z tol) of
                    Inl e \<Rightarrow> Inl e
                  | Inr (res3, vals3) \<Rightarrow>
                      static_extract ((tier_L3_model m vals2 Z tol)\<lparr>m_vals := vals3\<rparr>) Z)"
          by (simp_all add: solve_two_tier_lco_eq)
        with a s1 have "solve opt' m = Inr (res2, vals2)"
          "solve opt' (tier_L3_model m vals2 Z tol) = solve opt (tier_L3_model m vals2 Z tol)"
          by simp_all
        with b s c Inr False show ?thesis by (simp add: solve_two_tier_lco_eq)
      qed
    qed
  qed
qed

section \<open>Stay-day derivation\<close>

text \<open>
  Claim C4. For a booking with start day \<open>s\<close> and length \<open>L\<close>, both stay-day functions
  return a list and raise nothing. \<^verbatim>\<open>stay_days\<close> of the mini file returns the days from
  \<open>s\<close> to \<open>min (s + L - 1) DAYS\<close> in order; for a start day of at least 1 (the data model's
  \<open>start_day \<ge> 1\<close>) that is the ascending list of the horizon days \<open>d\<close> with
  \<open>s \<le> d \<le> min (s + L - 1) DAYS\<close>. \<^verbatim>\<open>_stay_days\<close> of the static builder returns that
  ascending list of horizon days for every start day. Both lists are empty when the
  booking starts after the horizon.
\<close>

theorem stay_days_spec:
  "(map_of (bookings g) bid = Some (s, L, p, q) \<longrightarrow>
      stay_days g bid = Inr [s .. min (s + L - 1) (DAYS g)] \<and>
      (1 \<le> s \<longrightarrow>
         stay_days g bid
           = Inr [d \<leftarrow> [1 .. DAYS g]. s \<le> d \<and> d \<le> min (s + L - 1) (DAYS g)]) \<and>
      (DAYS g < s \<longrightarrow> stay_days g bid = Inr [])) \<and>
   (start b = Some s' \<and> len b = Some L' \<longrightarrow>
      static_stay_days [1 .. nd] start len b
        = Inr [d \<leftarrow> [1 .. nd]. s' \<le> d \<and> d \<le> min (s' + L' - 1) nd] \<and>
      (1 \<le> s' \<longrightarrow> static_stay_days [1 .. nd] start len b = Inr [s' .. min (s' + L' - 1) nd]) \<and>
      (nd < s' \<longrightarrow> static_stay_days [1 .. nd] start len b = Inr []))"
proof (intro conjI impI)
  assume h: "map_of (bookings g) bid = Some (s, L, p, q)"
  then show a: "stay_days g bid = Inr [s .. min (s + L - 1) (DAYS g)]"
    by (simp add: stay_days_mini)
  show "stay_days g bid = Inr [d \<leftarrow> [1 .. DAYS g]. s \<le> d \<and> d \<le> min (s + L - 1) (DAYS g)]"
    if s: "1 \<le> s"
  proof -
    have "[d \<leftarrow> [1 .. DAYS g]. s \<le> d \<and> d \<le> min (s + L - 1) (DAYS g)]
            = [max 1 s .. min (DAYS g) (min (s + L - 1) (DAYS g))]"
      by (rule filter_upto_interval)
    moreover have "max 1 s = s" using s by simp
    moreover have "min (DAYS g) (min (s + L - 1) (DAYS g)) = min (s + L - 1) (DAYS g)" by simp
    ultimately show ?thesis using a by simp
  qed
  show "stay_days g bid = Inr []" if "DAYS g < s" using a that by simp
next
  assume h: "start b = Some s' \<and> len b = Some L'"
  then have a: "static_stay_days [1 .. nd] start len b = Inr [max 1 s' .. min (s' + L' - 1) nd]"
    by (simp add: stay_days_static)
  have "[d \<leftarrow> [1 .. nd]. s' \<le> d \<and> d \<le> min (s' + L' - 1) nd]
          = [max 1 s' .. min nd (min (s' + L' - 1) nd)]"
    by (rule filter_upto_interval)
  moreover have "min nd (min (s' + L' - 1) nd) = min (s' + L' - 1) nd" by simp
  ultimately show "static_stay_days [1 .. nd] start len b
        = Inr [d \<leftarrow> [1 .. nd]. s' \<le> d \<and> d \<le> min (s' + L' - 1) nd]"
    using a by simp
  show "static_stay_days [1 .. nd] start len b = Inr [s' .. min (s' + L' - 1) nd]" if "1 \<le> s'"
    using a that by (simp add: max_def)
  show "static_stay_days [1 .. nd] start len b = Inr []" if "nd < s'"
    using a that by simp
qed

text \<open>On the small instance: booking 2 (start 2, four nights, horizon 3) stays on days 2
  and 3 in both files.\<close>

theorem stay_days_spec_witness:
  "stay_days ex_globals 2 = Inr [2, 3] \<and>
   static_stay_days [1 .. 3] (map_of [(2, 2)]) (map_of [(2, 4)]) 2 = Inr [2, 3]"
  using stay_days_spec [of ex_globals 2 2 4 80 "0.5" "map_of [(2, 2)]" 2 2 "map_of [(2, 4)]" 4 3]
  by (simp add: ex_globals_def upto_from_1)

section \<open>Sparse assignment variables\<close>

text \<open>
  Claim C5. In a model either builder returns, the assignment variable \<^verbatim>\<open>m.y[b, r, d]\<close>
  exists exactly when \<open>r\<close> is a room and \<open>d\<close> is one of the stay days of booking \<open>b\<close>
  (for an id that is no booking the stay-day function raises, and no variable exists).
  For the mini file the stay days lie in the horizon when the start days are at least 1,
  the data model's \<open>start_day \<ge> 1\<close>; without that the horizon test \<^verbatim>\<open>for d in days\<close> of
  the index set is part of the condition. In both models no assignment variable exists
  for a day outside \<open>1 .. horizon\<close>, in particular for the days of a stay that runs past
  the horizon.
\<close>

theorem assignment_variables_sparse:
  "(build_model g = Inr m \<longrightarrow>
      (Var_y b r d \<in> declared m \<longleftrightarrow>
         r \<in> set (rooms g) \<and> d \<in> set (days g) \<and> (\<exists>ds. stay_days g b = Inr ds \<and> d \<in> set ds)) \<and>
      ((\<forall>(b', s, L, p, q) \<in> set (bookings g). 1 \<le> s) \<longrightarrow>
         (Var_y b r d \<in> declared m \<longleftrightarrow>
            r \<in> set (rooms g) \<and> (\<exists>ds. stay_days g b = Inr ds \<and> d \<in> set ds))) \<and>
      (Var_y b r d \<in> declared m \<longrightarrow> 1 \<le> d \<and> d \<le> DAYS g)) \<and>
   (build_static_lco_model bookings_arg nd nr capacity_by_day = Inr m' \<longrightarrow>
      (Var_y b r d \<in> declared m' \<longleftrightarrow>
         r \<in> set (m_R m') \<and>
         (\<exists>ds. static_stay_days (m_D m') (m_start m') (m_length m') b = Inr ds \<and> d \<in> set ds)) \<and>
      m_R m' = [1 .. nr] \<and> m_D m' = [1 .. nd] \<and>
      m_start m' = map_option start_day \<circ> map_of (bookings_or_default bookings_arg) \<and>
      m_length m' = map_option length_of_stay \<circ> map_of (bookings_or_default bookings_arg) \<and>
      (Var_y b r d \<in> declared m' \<longrightarrow> 1 \<le> d \<and> d \<le> nd))"
proof (intro conjI impI)
  assume "build_model g = Inr m"
  then have a: "add_constraints (mini_pre g) (cont g) = Inr m" by (simp add: build_model_eq)
  from mini_built(1)[OF a] have Y: "m_YIDX m = set (yidx (in_stay g) (rooms g))" by simp
  show 1: "Var_y b r d \<in> declared m \<longleftrightarrow>
         r \<in> set (rooms g) \<and> d \<in> set (days g) \<and> (\<exists>ds. stay_days g b = Inr ds \<and> d \<in> set ds)"
    by (auto simp: declared_y Y yidx_iff in_stay_iff stay_days_member)
  show "Var_y b r d \<in> declared m \<longleftrightarrow>
            r \<in> set (rooms g) \<and> (\<exists>ds. stay_days g b = Inr ds \<and> d \<in> set ds)"
    if h: "\<forall>(b', s, L, p, q) \<in> set (bookings g). 1 \<le> s"
  proof -
    have "d \<in> set (days g)" if "d \<in> set (sdays (stay_days g b))"
      using sdays_mini_lower[OF h that] sdays_mini_upper[OF that] by (simp add: days_def)
    then show ?thesis unfolding 1 by (auto simp: stay_days_member)
  qed
  show "1 \<le> d" "d \<le> DAYS g" if "Var_y b r d \<in> declared m"
    using that unfolding 1 by (simp_all add: days_def)
next
  assume b: "build_static_lco_model bookings_arg nd nr capacity_by_day = Inr m'"
  define bks where "bks = bookings_or_default bookings_arg"
  define cbd where "cbd = capacity_or_default capacity_by_day nd nr"
  note a = build_static_Inr(3)[OF b bks_def cbd_def]
  note f = static_built(1)[OF a]
  from f show R: "m_R m' = [1 .. nr]" and D: "m_D m' = [1 .. nd]" by simp_all
  from f have Y: "m_YIDX m' = set (yidx (instay (static_params bks nd nr cbd)) [1 .. nr])"
    and S: "m_start m' = map_option start_day \<circ> map_of bks"
    and L: "m_length m' = map_option length_of_stay \<circ> map_of bks"
    by (simp_all add: map_of_proj)
  from S L show "m_start m' = map_option start_day \<circ> map_of (bookings_or_default bookings_arg)"
    and "m_length m' = map_option length_of_stay \<circ> map_of (bookings_or_default bookings_arg)"
    by (simp_all add: bks_def)
  show 2: "Var_y b r d \<in> declared m' \<longleftrightarrow>
         r \<in> set (m_R m') \<and>
         (\<exists>ds. static_stay_days (m_D m') (m_start m') (m_length m') b = Inr ds \<and> d \<in> set ds)"
    unfolding declared_y Y yidx_iff instay_iff static_params_fields R D S L map_of_proj
      static_stay_days_member
    by (auto simp: static_stay_days_def param_def split: option.splits)
  show "1 \<le> d" "d \<le> nd" if "Var_y b r d \<in> declared m'"
    using that unfolding declared_y Y yidx_iff instay_iff static_params_fields by simp_all
qed

text \<open>On the small instance booking 2 stays on days 2 to 5 by its record and on days 2, 3
  within the horizon: its variable for room 1 exists on day 3 and not on day 4.\<close>

theorem assignment_variables_sparse_witness:
  "\<not> isl (build_model ex_globals) \<and>
   Var_y 2 1 3 \<in> declared (projr (build_model ex_globals)) \<and>
   Var_y 2 1 4 \<notin> declared (projr (build_model ex_globals)) \<and>
   \<not> isl (build_static_lco_model (Some ex_bookings) 3 2 None) \<and>
   Var_y 2 1 3 \<in> declared (projr (build_static_lco_model (Some ex_bookings) 3 2 None)) \<and>
   Var_y 2 1 4 \<notin> declared (projr (build_static_lco_model (Some ex_bookings) 3 2 None))"
proof -
  from ex_mini_built obtain m where m: "build_model ex_globals = Inr m" by blast
  from ex_static_built obtain m' where
    m': "build_static_lco_model (Some ex_bookings) 3 2 None = Inr m'" by blast
  have s: "stay_days ex_globals 2 = Inr [2, 3]" by (simp add: stay_days_def ex_globals_def)
  have r: "rooms ex_globals = [1, 2]" "days ex_globals = [1, 2, 3]"
    by (simp_all add: rooms_def days_def ex_globals_def upto_from_1)
  note t3 = assignment_variables_sparse [of ex_globals m 2 1 3 "Some ex_bookings" 3 2 None m']
  note t4 = assignment_variables_sparse [of ex_globals m 2 1 4 "Some ex_bookings" 3 2 None m']
  from t3 t4 m m' show ?thesis
    by (simp add: s r upto_from_1 static_stay_days_def param_def bookings_or_default_def
          ex_bookings_def)
qed

section \<open>Acceptance and assignment are linked\<close>

text \<open>
  Claim C6. In a model either builder returns, \<^verbatim>\<open>m.Assign[b, d]\<close> is the constraint
  \<open>sum over all rooms r of y[b, r, d] = a[b]\<close> when \<open>d\<close> is a stay day of booking \<open>b\<close>, and
  the index has no constraint at all when it is not. (For the mini file the stay days are
  horizon days when the start days are at least 1, the data model's \<open>start_day \<ge> 1\<close>;
  stated without that, the index set's horizon test is part of the condition.) In every
  feasible valuation a booking with \<open>a[b] = 1\<close> occupies exactly one room on each of its
  stay days, and one with \<open>a[b] = 0\<close> occupies none.
\<close>

theorem acceptance_assignment_link:
  "(build_model g = Inr m \<longrightarrow>
      m_Assign m (b, d) =
        (if d \<in> set (days g) \<and> stays (stay_days g b) d
         then Some (Constr (map (\<lambda>r. (1, Var_y b r d)) (rooms g)) EQ [(1, Var_a b)] 0)
         else None) \<and>
      ((\<forall>(b', s, L, p, q) \<in> set (bookings g). 1 \<le> s) \<longrightarrow>
         m_Assign m (b, d) =
           (if stays (stay_days g b) d
            then Some (Constr (map (\<lambda>r. (1, Var_y b r d)) (rooms g)) EQ [(1, Var_a b)] 0)
            else None)) \<and>
      (feasible m v \<and> d \<in> set (days g) \<and> stays (stay_days g b) d \<longrightarrow>
         (v (Var_a b) = 1 \<longrightarrow> occupies_one_room v (rooms g) b d) \<and>
         (v (Var_a b) = 0 \<longrightarrow> occupies_no_room v (rooms g) b d))) \<and>
   (build_static_lco_model bookings_arg nd nr capacity_by_day = Inr m' \<longrightarrow>
      m_Assign m' (b, d) =
        (if stays (static_stay_days (m_D m') (m_start m') (m_length m') b) d
         then Some (Constr (map (\<lambda>r. (1, Var_y b r d)) [1 .. nr]) EQ [(1, Var_a b)] 0)
         else None) \<and>
      (feasible m' v \<and> stays (static_stay_days (m_D m') (m_start m') (m_length m') b) d \<longrightarrow>
         (v (Var_a b) = 1 \<longrightarrow> occupies_one_room v [1 .. nr] b d) \<and>
         (v (Var_a b) = 0 \<longrightarrow> occupies_no_room v [1 .. nr] b d)))"
proof (intro conjI impI)
  assume "build_model g = Inr m"
  then have a: "add_constraints (mini_pre g) (cont g) = Inr m" by (simp add: build_model_eq)
  note fr = mini_built(1)[OF a] and A = mini_built(3)[OF a, of b d]
  have in_B: "b \<in> set (B g)" if "stays (stay_days g b) d"
    using that stay_days_Inr_iff[of g b] by blast
  show 1: "m_Assign m (b, d) =
        (if d \<in> set (days g) \<and> stays (stay_days g b) d
         then Some (Constr (map (\<lambda>r. (1, Var_y b r d)) (rooms g)) EQ [(1, Var_a b)] 0)
         else None)"
  proof (cases "d \<in> set (days g) \<and> stays (stay_days g b) d")
    case True
    then have "b \<in> set (B g)" using in_B by blast
    with True show ?thesis unfolding A mini_instay_iff by simp
  next
    case False
    then show ?thesis unfolding A mini_instay_iff by simp
  qed
  show "m_Assign m (b, d) =
           (if stays (stay_days g b) d
            then Some (Constr (map (\<lambda>r. (1, Var_y b r d)) (rooms g)) EQ [(1, Var_a b)] 0)
            else None)"
    if "\<forall>(b', s, L, p, q) \<in> set (bookings g). 1 \<le> s"
  proof (cases "stays (stay_days g b) d")
    case True
    with mini_stays_in_horizon[OF that True] show ?thesis unfolding 1 by simp
  next
    case False
    then show ?thesis unfolding 1 by simp
  qed
  assume h: "feasible m v \<and> d \<in> set (days g) \<and> stays (stay_days g b) d"
  then have c: "m_Assign m (b, d)
      = Some (Constr (map (\<lambda>r. (1, Var_y b r d)) (rooms g)) EQ [(1, Var_a b)] 0)"
    unfolding 1 by simp
  have y: "\<forall>r \<in> set (rooms g). (b, r, d) \<in> m_YIDX m"
    using fr h by (simp add: yidx_iff mini_instay_iff)
  have dist: "distinct (rooms g)" by (simp add: rooms_def)
  from h have f: "feasible m v" by simp
  show "occupies_one_room v (rooms g) b d" if "v (Var_a b) = 1"
    using assign_link_forces(1)[OF f c dist y] that by (simp add: occupies_one_room_def)
  show "occupies_no_room v (rooms g) b d" if "v (Var_a b) = 0"
    using assign_link_forces(2)[OF f c dist y] that by (simp add: occupies_no_room_def)
next
  assume bs: "build_static_lco_model bookings_arg nd nr capacity_by_day = Inr m'"
  define bks where "bks = bookings_or_default bookings_arg"
  define cbd where "cbd = capacity_or_default capacity_by_day nd nr"
  note a = build_static_Inr(3)[OF bs bks_def cbd_def]
  note fr = static_built(1)[OF a] and A = static_built(3)[OF a, of b d]
  from fr have D: "m_D m' = [1 .. nd]"
    and S: "m_start m' = map_option start_day \<circ> map_of bks"
    and L: "m_length m' = map_option length_of_stay \<circ> map_of bks"
    by (simp_all add: map_of_proj)
  have in_B: "b \<in> set (map fst bks) \<and> d \<in> set [1 .. nd]"
    if "(b, d) \<in> set (instay (static_params bks nd nr cbd))"
    using that by (simp add: instay_iff static_params_fields)
  show 1: "m_Assign m' (b, d) =
        (if stays (static_stay_days (m_D m') (m_start m') (m_length m') b) d
         then Some (Constr (map (\<lambda>r. (1, Var_y b r d)) [1 .. nr]) EQ [(1, Var_a b)] 0)
         else None)"
  proof (cases "(b, d) \<in> set (instay (static_params bks nd nr cbd))")
    case True
    with in_B[OF True] show ?thesis
      unfolding A D S L static_instay_iff[where b=b and d=d and bks=bks and nd=nd and nr=nr and cbd=cbd, symmetric] by simp
  next
    case False
    then show ?thesis
      unfolding A D S L static_instay_iff[where b=b and d=d and bks=bks and nd=nd and nr=nr and cbd=cbd, symmetric] by simp
  qed
  assume h: "feasible m' v \<and> stays (static_stay_days (m_D m') (m_start m') (m_length m') b) d"
  then have c: "m_Assign m' (b, d)
      = Some (Constr (map (\<lambda>r. (1, Var_y b r d)) [1 .. nr]) EQ [(1, Var_a b)] 0)"
    unfolding 1 by simp
  from h have "(b, d) \<in> set (instay (static_params bks nd nr cbd))"
    unfolding D S L static_instay_iff by simp
  then have y: "\<forall>r \<in> set [1 .. nr]. (b, r, d) \<in> m_YIDX m'"
    using fr by (simp add: yidx_iff)
  have dist: "distinct [1 .. nr]" by simp
  from h have f: "feasible m' v" by simp
  show "occupies_one_room v [1 .. nr] b d" if "v (Var_a b) = 1"
    using assign_link_forces(1)[OF f c dist y] that by (simp add: occupies_one_room_def)
  show "occupies_no_room v [1 .. nr] b d" if "v (Var_a b) = 0"
    using assign_link_forces(2)[OF f c dist y] that by (simp add: occupies_no_room_def)
qed

text \<open>On the small instance, with the valuation above: the constraint of booking 2 on day
  3 is present, the indices (2, 4) and (2, 1) have none, and the booking is in exactly one
  room on day 3.\<close>

theorem acceptance_assignment_link_witness:
  "\<not> isl (build_model ex_globals) \<and>
   feasible (projr (build_model ex_globals)) ex_valuation \<and>
   m_Assign (projr (build_model ex_globals)) (2, 3)
     = Some (Constr [(1, Var_y 2 1 3), (1, Var_y 2 2 3)] EQ [(1, Var_a 2)] 0) \<and>
   m_Assign (projr (build_model ex_globals)) (2, 4) = None \<and>
   m_Assign (projr (build_model ex_globals)) (2, 1) = None \<and>
   occupies_one_room ex_valuation [1, 2] 2 3 \<and>
   \<not> isl (build_static_lco_model (Some ex_bookings) 3 2 None) \<and>
   feasible (projr (build_static_lco_model (Some ex_bookings) 3 2 None)) ex_valuation \<and>
   m_Assign (projr (build_static_lco_model (Some ex_bookings) 3 2 None)) (2, 3)
     = Some (Constr [(1, Var_y 2 1 3), (1, Var_y 2 2 3)] EQ [(1, Var_a 2)] 0) \<and>
   m_Assign (projr (build_static_lco_model (Some ex_bookings) 3 2 None)) (2, 4) = None"
proof -
  from ex_mini_built obtain m where m: "build_model ex_globals = Inr m" by blast
  from ex_static_built obtain m' where
    m': "build_static_lco_model (Some ex_bookings) 3 2 None = Inr m'" by blast
  note f = ex_mini_feasible[OF m] and f' = ex_static_feasible[OF m']
  have s: "stay_days ex_globals 2 = Inr [2, 3]" by (simp add: stay_days_def ex_globals_def)
  have p: "m_D m' = [1, 2, 3]"
    "m_start m' = map_option start_day \<circ> map_of ex_bookings"
    "m_length m' = map_option length_of_stay \<circ> map_of ex_bookings"
    using build_static_frame[OF m'] by (simp_all add: bookings_or_default_def upto_from_1)
  have s': "static_stay_days (m_D m') (m_start m') (m_length m') 2 = Inr [2, 3]"
    unfolding p by (simp add: static_stay_days_def param_def ex_bookings_def)
  note t3 = acceptance_assignment_link [of ex_globals m 2 3 ex_valuation "Some ex_bookings" 3 2 None m']
  note t4 = acceptance_assignment_link [of ex_globals m 2 4 ex_valuation "Some ex_bookings" 3 2 None m']
  note t1 = acceptance_assignment_link [of ex_globals m 2 1 ex_valuation "Some ex_bookings" 3 2 None m']
  have v: "ex_valuation (Var_a 2) = 1" by (simp add: ex_valuation_def)
  from t3 t4 t1 m m' f f' v show ?thesis
    by (simp add: s s' ex_mini_sets upto_from_1)
qed

section \<open>Continuity\<close>

text \<open>
  Claim C7. In a model either builder returns, \<^verbatim>\<open>m.Continuity[b, r, d]\<close> is the constraint
  \<open>y[b, r, d] = y[b, r, d + 1]\<close> exactly when \<open>r\<close> is a room and both \<open>d\<close> and \<open>d + 1\<close> are
  stay days of booking \<open>b\<close>, and the index has no constraint otherwise (for the mini file
  again with the index set's horizon test written out, which start days of at least 1
  make redundant). In every feasible valuation a booking with \<open>a[b] = 1\<close> that has a stay
  day occupies one and the same room, and no other, on all of its stay days.
\<close>

theorem continuity_constraints:
  "(build_model g = Inr m \<longrightarrow>
      m_Continuity m (b, r, d) =
        (if r \<in> set (rooms g) \<and> d \<in> set (days g) \<and> stays (stay_days g b) d
              \<and> stays (stay_days g b) (d + 1)
         then Some (Constr [(1, Var_y b r d)] EQ [(1, Var_y b r (d + 1))] 0)
         else None) \<and>
      ((\<forall>(b', s, L, p, q) \<in> set (bookings g). 1 \<le> s) \<longrightarrow>
         m_Continuity m (b, r, d) =
           (if r \<in> set (rooms g) \<and> stays (stay_days g b) d \<and> stays (stay_days g b) (d + 1)
            then Some (Constr [(1, Var_y b r d)] EQ [(1, Var_y b r (d + 1))] 0)
            else None)) \<and>
      (feasible m v \<and> v (Var_a b) = 1 \<and> d0 \<in> set (days g) \<and> stays (stay_days g b) d0 \<longrightarrow>
         same_single_room v (rooms g) b {d. d \<in> set (days g) \<and> stays (stay_days g b) d})) \<and>
   (build_static_lco_model bookings_arg nd nr capacity_by_day = Inr m' \<longrightarrow>
      m_Continuity m' (b, r, d) =
        (if r \<in> set [1 .. nr] \<and> stays (static_stay_days (m_D m') (m_start m') (m_length m') b) d
              \<and> stays (static_stay_days (m_D m') (m_start m') (m_length m') b) (d + 1)
         then Some (Constr [(1, Var_y b r d)] EQ [(1, Var_y b r (d + 1))] 0)
         else None) \<and>
      (feasible m' v \<and> v (Var_a b) = 1
          \<and> stays (static_stay_days (m_D m') (m_start m') (m_length m') b) d0 \<longrightarrow>
         same_single_room v [1 .. nr] b
           {d. stays (static_stay_days (m_D m') (m_start m') (m_length m') b) d}))"
proof (intro conjI impI)
  assume bm: "build_model g = Inr m"
  then have a: "add_constraints (mini_pre g) (cont g) = Inr m" by (simp add: build_model_eq)
  have c: "(b, r, d) \<in> set (cont g) \<longleftrightarrow>
      r \<in> set (rooms g) \<and> d \<in> set (days g) \<and> stays (stay_days g b) d \<and> stays (stay_days g b) (d + 1)"
    unfolding cont_iff stay_days_member by blast
  show 1: "m_Continuity m (b, r, d) =
        (if r \<in> set (rooms g) \<and> d \<in> set (days g) \<and> stays (stay_days g b) d
              \<and> stays (stay_days g b) (d + 1)
         then Some (Constr [(1, Var_y b r d)] EQ [(1, Var_y b r (d + 1))] 0)
         else None)"
    unfolding mini_built(4)[OF a] c ..
  show "m_Continuity m (b, r, d) =
           (if r \<in> set (rooms g) \<and> stays (stay_days g b) d \<and> stays (stay_days g b) (d + 1)
            then Some (Constr [(1, Var_y b r d)] EQ [(1, Var_y b r (d + 1))] 0)
            else None)"
    if h: "\<forall>(b', s, L, p, q) \<in> set (bookings g). 1 \<le> s"
  proof (cases "stays (stay_days g b) d")
    case True
    with mini_stays_in_horizon[OF h True] show ?thesis unfolding 1 by simp
  next
    case False
    then show ?thesis unfolding 1 by simp
  qed
  assume h: "feasible m v \<and> v (Var_a b) = 1 \<and> d0 \<in> set (days g) \<and> stays (stay_days g b) d0"
  then have "(b, d0) \<in> set (in_stay g)" unfolding mini_instay_iff by simp
  from mini_single_room[OF bm _ _ this, of v] h
  show "same_single_room v (rooms g) b {d. d \<in> set (days g) \<and> stays (stay_days g b) d}"
    unfolding mini_instay_iff by simp
next
  assume bs: "build_static_lco_model bookings_arg nd nr capacity_by_day = Inr m'"
  define bks where "bks = bookings_or_default bookings_arg"
  define cbd where "cbd = capacity_or_default capacity_by_day nd nr"
  note a = build_static_Inr(3)[OF bs bks_def cbd_def]
  note fr = build_static_frame[OF bs, folded bks_def cbd_def]
  have c: "(b, r, d) \<in> set (static_cont (static_params bks nd nr cbd)) \<longleftrightarrow>
      r \<in> set [1 .. nr] \<and> stays (static_stay_days (m_D m') (m_start m') (m_length m') b) d
        \<and> stays (static_stay_days (m_D m') (m_start m') (m_length m') b) (d + 1)"
    unfolding static_cont_iff fr(3,4,5)
      static_instay_iff[where bks=bks and nd=nd and nr=nr and cbd=cbd, symmetric]
    by (auto simp: instay_iff static_params_fields)
  show "m_Continuity m' (b, r, d) =
        (if r \<in> set [1 .. nr] \<and> stays (static_stay_days (m_D m') (m_start m') (m_length m') b) d
              \<and> stays (static_stay_days (m_D m') (m_start m') (m_length m') b) (d + 1)
         then Some (Constr [(1, Var_y b r d)] EQ [(1, Var_y b r (d + 1))] 0)
         else None)"
    unfolding static_built(4)[OF a] c ..
  assume h: "feasible m' v \<and> v (Var_a b) = 1
          \<and> stays (static_stay_days (m_D m') (m_start m') (m_length m') b) d0"
  then have "(b, d0) \<in> set (instay (static_params bks nd nr cbd))"
    unfolding fr(3,4,5) static_instay_iff by simp
  from static_single_room[OF bs bks_def cbd_def _ _ this, of v] h
  show "same_single_room v [1 .. nr] b
           {d. stays (static_stay_days (m_D m') (m_start m') (m_length m') b) d}"
    unfolding fr(3,4,5) static_instay_iff by simp
qed

text \<open>On the small instance: booking 2 stays on days 2 and 3, so room 1 has the continuity
  constraint at day 2 and none at day 3, and in the valuation above the booking keeps one
  room over its stay.\<close>

theorem continuity_constraints_witness:
  "\<not> isl (build_model ex_globals) \<and>
   feasible (projr (build_model ex_globals)) ex_valuation \<and>
   m_Continuity (projr (build_model ex_globals)) (2, 1, 2)
     = Some (Constr [(1, Var_y 2 1 2)] EQ [(1, Var_y 2 1 3)] 0) \<and>
   m_Continuity (projr (build_model ex_globals)) (2, 1, 3) = None \<and>
   same_single_room ex_valuation [1, 2] 2
     {d. d \<in> set (days ex_globals) \<and> stays (stay_days ex_globals 2) d} \<and>
   \<not> isl (build_static_lco_model (Some ex_bookings) 3 2 None) \<and>
   feasible (projr (build_static_lco_model (Some ex_bookings) 3 2 None)) ex_valuation \<and>
   m_Continuity (projr (build_static_lco_model (Some ex_bookings) 3 2 None)) (2, 1, 2)
     = Some (Constr [(1, Var_y 2 1 2)] EQ [(1, Var_y 2 1 3)] 0) \<and>
   m_Continuity (projr (build_static_lco_model (Some ex_bookings) 3 2 None)) (2, 1, 3) = None"
proof -
  from ex_mini_built obtain m where m: "build_model ex_globals = Inr m" by blast
  from ex_static_built obtain m' where
    m': "build_static_lco_model (Some ex_bookings) 3 2 None = Inr m'" by blast
  note f = ex_mini_feasible[OF m] and f' = ex_static_feasible[OF m']
  have s: "stay_days ex_globals 2 = Inr [2, 3]" by (simp add: stay_days_def ex_globals_def)
  have p: "m_D m' = [1, 2, 3]"
    "m_start m' = map_option start_day \<circ> map_of ex_bookings"
    "m_length m' = map_option length_of_stay \<circ> map_of ex_bookings"
    using build_static_frame[OF m'] by (simp_all add: bookings_or_default_def upto_from_1)
  have s': "static_stay_days (m_D m') (m_start m') (m_length m') 2 = Inr [2, 3]"
    unfolding p by (simp add: static_stay_days_def param_def ex_bookings_def)
  note t2 = continuity_constraints [of ex_globals m 2 1 2 ex_valuation 2 "Some ex_bookings" 3 2 None m']
  note t3 = continuity_constraints [of ex_globals m 2 1 3 ex_valuation 2 "Some ex_bookings" 3 2 None m']
  have v: "ex_valuation (Var_a 2) = 1" by (simp add: ex_valuation_def)
  from t2 t3 m m' f f' v show ?thesis
    by (simp add: s s' ex_mini_sets upto_from_1)
qed

section \<open>The Tier-1 objective\<close>

text \<open>
  Claim C2. In a model either builder returns (from a bookings dict, whose keys are
  distinct), the objective is \<open>maximize\<close> of the revenue expression, and the revenue
  expression is the sum over the bookings of \<open>a[b] * price_per_night(b) * length_of_stay(b)\<close>:
  its term for booking \<open>b\<close> has the coefficient price times the length of stay as the
  booking record gives it, whatever part of the stay lies in the horizon.
\<close>

theorem revenue_objective:
  "(build_model g = Inr m \<and> distinct (map fst (bookings g)) \<longrightarrow>
      m_obj m = Some (maximize, m_RevExpr m) \<and>
      m_RevExpr m = map (\<lambda>(b, s, L, p, q). (p * real_of_int L, Var_a b)) (bookings g) \<and>
      eval_expr v (m_RevExpr m)
        = (\<Sum>(b, s, L, p, q)\<leftarrow>bookings g. v (Var_a b) * p * real_of_int L)) \<and>
   (build_static_lco_model bookings_arg nd nr capacity_by_day = Inr m'
      \<and> distinct (map fst (bookings_or_default bookings_arg)) \<longrightarrow>
      m_obj m' = Some (maximize, m_RevExpr m') \<and>
      m_RevExpr m' =
        map (\<lambda>(b, spec). (price_per_night spec * real_of_int (length_of_stay spec), Var_a b))
          (bookings_or_default bookings_arg) \<and>
      eval_expr v (m_RevExpr m')
        = (\<Sum>(b, spec)\<leftarrow>bookings_or_default bookings_arg.
             v (Var_a b) * price_per_night spec * real_of_int (length_of_stay spec)))"
proof (intro conjI impI)
  assume h: "build_model g = Inr m \<and> distinct (map fst (bookings g))"
  then have a: "add_constraints (mini_pre g) (cont g) = Inr m" by (simp add: build_model_eq)
  show "m_obj m = Some (maximize, m_RevExpr m)" by (rule mini_built(7)[OF a])
  show r: "m_RevExpr m = map (\<lambda>(b, s, L, p, q). (p * real_of_int L, Var_a b)) (bookings g)"
    by (rule mini_RevExpr[OF conjunct1[OF h] conjunct2[OF h]])
  show "eval_expr v (m_RevExpr m)
        = (\<Sum>(b, s, L, p, q)\<leftarrow>bookings g. v (Var_a b) * p * real_of_int L)"
    unfolding r eval_expr_def
    by (simp add: comp_def case_prod_unfold mult_ac)
next
  assume h: "build_static_lco_model bookings_arg nd nr capacity_by_day = Inr m'
      \<and> distinct (map fst (bookings_or_default bookings_arg))"
  note a = build_static_Inr(3)[OF conjunct1[OF h] refl refl]
  show "m_obj m' = Some (maximize, m_RevExpr m')" by (rule static_built(7)[OF a])
  show r: "m_RevExpr m' =
        map (\<lambda>(b, spec). (price_per_night spec * real_of_int (length_of_stay spec), Var_a b))
          (bookings_or_default bookings_arg)"
    by (rule static_RevExpr[OF conjunct1[OF h] conjunct2[OF h]])
  show "eval_expr v (m_RevExpr m')
        = (\<Sum>(b, spec)\<leftarrow>bookings_or_default bookings_arg.
             v (Var_a b) * price_per_night spec * real_of_int (length_of_stay spec))"
    unfolding r eval_expr_def
    by (simp add: comp_def case_prod_unfold mult_ac)
qed

text \<open>On the small instance booking 2 (four nights at 80, of which only days 2 and 3 are
  in the horizon) contributes 320, not 160.\<close>

theorem revenue_objective_witness:
  "\<not> isl (build_model ex_globals) \<and>
   m_obj (projr (build_model ex_globals)) = Some (maximize, [(200, Var_a 1), (320, Var_a 2)]) \<and>
   stay_days ex_globals 2 = Inr [2, 3] \<and>
   eval_expr ex_valuation (m_RevExpr (projr (build_model ex_globals))) = 520 \<and>
   \<not> isl (build_static_lco_model (Some ex_bookings) 3 2 None) \<and>
   m_obj (projr (build_static_lco_model (Some ex_bookings) 3 2 None))
     = Some (maximize, [(200, Var_a 1), (320, Var_a 2)]) \<and>
   eval_expr ex_valuation (m_RevExpr (projr (build_static_lco_model (Some ex_bookings) 3 2 None)))
     = 520"
proof -
  from ex_mini_built obtain m where m: "build_model ex_globals = Inr m" by blast
  from ex_static_built obtain m' where
    m': "build_static_lco_model (Some ex_bookings) 3 2 None = Inr m'" by blast
  have s: "stay_days ex_globals 2 = Inr [2, 3]" by (simp add: stay_days_def ex_globals_def)
  have d: "distinct (map fst (bookings ex_globals))"
    "distinct (map fst (bookings_or_default (Some ex_bookings)))"
    by (simp_all add: ex_globals_def ex_bookings_def bookings_or_default_def)
  note t = revenue_objective [of ex_globals m ex_valuation "Some ex_bookings" 3 2 None m']
  from t m m' d s show ?thesis
    by (simp add: ex_globals_def ex_bookings_def bookings_or_default_def ex_valuation_def)
qed

section \<open>The start-day domain of the static builder\<close>

text \<open>
  Claim C10 says that, because of the domain of \<^verbatim>\<open>m.start\<close>, \<^verbatim>\<open>build_static_lco_model\<close>
  never builds a model containing a booking with an empty stay. The domain is on the start
  day only: \<^verbatim>\<open>m.length\<close> is declared without one, and a booking of zero nights that starts
  inside the horizon has no stay day. With the two bookings of the small instance and a
  third one that starts on day 2 for zero nights, the builder returns a model that holds
  booking 3, whose stay is empty:
\<close>

theorem zero_night_booking_builds:
  "\<not> isl (build_static_lco_model (Some ex_zero_bookings) 3 2 None) \<and>
   3 \<in> set (m_B (projr (build_static_lco_model (Some ex_zero_bookings) 3 2 None))) \<and>
   static_stay_days (m_D (projr (build_static_lco_model (Some ex_zero_bookings) 3 2 None)))
     (m_start (projr (build_static_lco_model (Some ex_zero_bookings) 3 2 None)))
     (m_length (projr (build_static_lco_model (Some ex_zero_bookings) 3 2 None))) 3 = Inr []"
proof -
  from ex_zero_default_built obtain m where
    m: "build_static_lco_model (Some ex_zero_bookings) 3 2 None = Inr m" by blast
  have l: "map_of (bookings_or_default (Some ex_zero_bookings)) 3
      = Some \<lparr>start_day = 2, length_of_stay = 0, price_per_night = 60, show_prob = 0.7\<rparr>"
    by (simp add: bookings_or_default_def ex_zero_bookings_def ex_bookings_def)
  from static_stay_in_model(3)[OF m l]
  have "static_stay_days (m_D m) (m_start m) (m_length m) 3 = Inr []" by simp
  moreover from build_static_frame(1)[OF m] have "3 \<in> set (m_B m)"
    by (simp add: bookings_or_default_def ex_zero_bookings_def ex_bookings_def)
  ultimately show ?thesis using m by simp
qed

text \<open>
  Claim C10 as amended. When some booking's start day is not one of the days \<open>1 .. days\<close>,
  \<^verbatim>\<open>build_static_lco_model\<close> raises the parameter-domain error of \<^verbatim>\<open>m.start\<close> (declared
  \<^verbatim>\<open>within=m.D\<close>). So in a model it returns every booking starts in the horizon and its stay
  is the days from its start day to \<open>min (start_day + length_of_stay - 1) days\<close>, all of
  them days of the horizon; the stay is empty exactly when \<open>length_of_stay \<le> 0\<close>, and it
  holds the start day when \<open>length_of_stay \<ge> 1\<close>. \<^verbatim>\<open>build_model\<close> of the mini file has no
  such check: adding a booking with any start day to an instance it builds gives an
  instance it builds, with the booking in \<^verbatim>\<open>m.B\<close>.
\<close>

theorem start_day_domain_check:
  "((b, spec) \<in> set (bookings_or_default bookings_arg)
       \<and> \<not> (1 \<le> start_day spec \<and> start_day spec \<le> nd) \<longrightarrow>
      (\<exists>b'. build_static_lco_model bookings_arg nd nr capacity_by_day = Inl (ParamDomainError b'))) \<and>
   (build_static_lco_model bookings_arg nd nr capacity_by_day = Inr m
       \<and> map_of (bookings_or_default bookings_arg) b = Some spec \<longrightarrow>
      1 \<le> start_day spec \<and> start_day spec \<le> nd \<and>
      static_stay_days (m_D m) (m_start m) (m_length m) b
        = Inr [start_day spec .. min (start_day spec + length_of_stay spec - 1) nd] \<and>
      (\<forall>d. stays (static_stay_days (m_D m) (m_start m) (m_length m) b) d \<longrightarrow> 1 \<le> d \<and> d \<le> nd) \<and>
      (static_stay_days (m_D m) (m_start m) (m_length m) b = Inr [] \<longleftrightarrow>
         length_of_stay spec \<le> 0) \<and>
      (1 \<le> length_of_stay spec \<longrightarrow>
         stays (static_stay_days (m_D m) (m_start m) (m_length m) b) (start_day spec))) \<and>
   ((\<exists>m. build_model g = Inr m) \<longrightarrow>
      (\<exists>m. build_model (g\<lparr>bookings := bookings g @ [(b, (s, L, p, q))]\<rparr>) = Inr m
           \<and> b \<in> set (m_B m)))"
proof (intro conjI impI)
  assume "(b, spec) \<in> set (bookings_or_default bookings_arg)
       \<and> \<not> (1 \<le> start_day spec \<and> start_day spec \<le> nd)"
  then show "\<exists>b'. build_static_lco_model bookings_arg nd nr capacity_by_day = Inl (ParamDomainError b')"
    using build_static_start_error[OF _ _ refl, of b spec bookings_arg nd nr capacity_by_day] by blast
next
  assume h: "build_static_lco_model bookings_arg nd nr capacity_by_day = Inr m
       \<and> map_of (bookings_or_default bookings_arg) b = Some spec"
  then have bs: "build_static_lco_model bookings_arg nd nr capacity_by_day = Inr m"
    and l: "map_of (bookings_or_default bookings_arg) b = Some spec" by simp_all
  note i = static_stay_in_model[OF bs l]
  show "1 \<le> start_day spec" "start_day spec \<le> nd" by (rule i)+
  show "static_stay_days (m_D m) (m_start m) (m_length m) b
        = Inr [start_day spec .. min (start_day spec + length_of_stay spec - 1) nd]" by (rule i(3))
  show "\<forall>d. stays (static_stay_days (m_D m) (m_start m) (m_length m) b) d \<longrightarrow> 1 \<le> d \<and> d \<le> nd"
    unfolding i(3) using i(1) by auto
  show "static_stay_days (m_D m) (m_start m) (m_length m) b = Inr [] \<longleftrightarrow> length_of_stay spec \<le> 0"
    unfolding i(3) using i(2) by auto
  show "stays (static_stay_days (m_D m) (m_start m) (m_length m) b) (start_day spec)"
    if "1 \<le> length_of_stay spec"
    unfolding i(3) using i(2) that by simp
next
  assume "\<exists>m. build_model g = Inr m"
  from build_model_extend[OF this, of "(b, (s, L, p, q))"] obtain m where
    m: "build_model (g\<lparr>bookings := bookings g @ [(b, (s, L, p, q))]\<rparr>) = Inr m" by blast
  from build_model_frame(1)[OF m] have "b \<in> set (m_B m)" by (simp add: B_def)
  with m show "\<exists>m. build_model (g\<lparr>bookings := bookings g @ [(b, (s, L, p, q))]\<rparr>) = Inr m
           \<and> b \<in> set (m_B m)" by blast
qed

text \<open>On the small instance with the late booking the static builder raises and the mini
  builder returns a model that holds booking 3, whose stay is empty; in the models the
  static builder returns, booking 2 (four nights from day 2) stays on days 2 and 3 and the
  zero-night booking 3 on no day.\<close>

theorem start_day_domain_check_witness:
  "isl (build_static_lco_model (Some ex_late_bookings) 3 2 None) \<and>
   \<not> isl (build_static_lco_model (Some ex_bookings) 3 2 None) \<and>
   stays (static_stay_days [1 .. 3] (map_option start_day \<circ> map_of ex_bookings)
            (map_option length_of_stay \<circ> map_of ex_bookings) 2) 2 \<and>
   static_stay_days [1 .. 3] (map_option start_day \<circ> map_of ex_bookings)
     (map_option length_of_stay \<circ> map_of ex_bookings) 2 = Inr [2, 3] \<and>
   \<not> isl (build_static_lco_model (Some ex_zero_bookings) 3 2 None) \<and>
   static_stay_days [1 .. 3] (map_option start_day \<circ> map_of ex_zero_bookings)
     (map_option length_of_stay \<circ> map_of ex_zero_bookings) 3 = Inr [] \<and>
   \<not> isl (build_model ex_globals) \<and>
   \<not> isl (build_model ex_late_globals) \<and>
   3 \<in> set (m_B (projr (build_model ex_late_globals))) \<and>
   stay_days ex_late_globals 3 = Inr []"
proof -
  from ex_static_built obtain m' where
    m': "build_static_lco_model (Some ex_bookings) 3 2 None = Inr m'" by blast
  from ex_zero_default_built obtain m0 where
    m0: "build_static_lco_model (Some ex_zero_bookings) 3 2 None = Inr m0" by blast
  let ?late = "\<lparr>start_day = 7, length_of_stay = 1, price_per_night = 60, show_prob = 0.7\<rparr>"
  let ?zero = "\<lparr>start_day = 2, length_of_stay = 0, price_per_night = 60, show_prob = 0.7\<rparr>"
  note t1 = start_day_domain_check
    [where b = 3 and spec = ?late and bookings_arg = "Some ex_late_bookings" and nd = 3 and nr = 2
       and capacity_by_day = None and g = ex_globals and s = 7 and L = 1 and p = 60
       and q = "0.7", THEN conjunct1]
  note t1' = start_day_domain_check
    [where b = 3 and g = ex_globals and s = 7 and L = 1 and p = 60 and q = "0.7",
      THEN conjunct2, THEN conjunct2, THEN mp, OF ex_mini_built]
  note t2 = start_day_domain_check
    [where b = 2 and spec = "snd (ex_bookings ! 1)" and bookings_arg = "Some ex_bookings"
       and nd = 3 and nr = 2 and capacity_by_day = None and m = m',
      THEN conjunct2, THEN conjunct1]
  note t3 = start_day_domain_check
    [where b = 3 and spec = ?zero and bookings_arg = "Some ex_zero_bookings"
       and nd = 3 and nr = 2 and capacity_by_day = None and m = m0,
      THEN conjunct2, THEN conjunct1]
  note fr = build_static_frame[OF m'] and fr0 = build_static_frame[OF m0]
  have e: "stay_days ex_late_globals 3 = Inr []"
    by (simp add: stay_days_def ex_late_globals_def ex_globals_def)
  have b: "bookings_or_default (Some ex_bookings) = ex_bookings"
    "bookings_or_default (Some ex_zero_bookings) = ex_zero_bookings"
    "bookings_or_default (Some ex_late_bookings) = ex_late_bookings"
    by (simp_all add: bookings_or_default_def)
  have l: "map_of ex_bookings 2 = Some (snd (ex_bookings ! 1))"
    "map_of ex_zero_bookings 3 = Some ?zero"
    "(3, ?late) \<in> set ex_late_bookings"
    by (simp_all add: ex_bookings_def ex_zero_bookings_def ex_late_bookings_def)
  from t1 l(3) have 1: "isl (build_static_lco_model (Some ex_late_bookings) 3 2 None)"
    by (auto simp: b)
  from t2 m' l(1) have 2: "stays (static_stay_days [1 .. 3] (map_option start_day \<circ> map_of ex_bookings)
            (map_option length_of_stay \<circ> map_of ex_bookings) 2) 2"
    "static_stay_days [1 .. 3] (map_option start_day \<circ> map_of ex_bookings)
       (map_option length_of_stay \<circ> map_of ex_bookings) 2 = Inr [2, 3]"
    unfolding b fr(3,4,5)[unfolded b] by (simp_all add: ex_bookings_def upto_from_1)
  from t3 m0 l(2) have 3: "static_stay_days [1 .. 3] (map_option start_day \<circ> map_of ex_zero_bookings)
     (map_option length_of_stay \<circ> map_of ex_zero_bookings) 3 = Inr []"
    unfolding b fr0(3,4,5)[unfolded b] by simp
  from t1' have 4: "\<not> isl (build_model ex_late_globals)"
    "3 \<in> set (m_B (projr (build_model ex_late_globals)))"
    by (auto simp: ex_late_globals_def)
  from 1 2 3 4 e m' m0 ex_mini_built show ?thesis by auto
qed

section \<open>No validation of capacities or stays\<close>




section \<open>The revenue floor comes before the second solve\<close>

text \<open>
  Claim C1. Either driver calls the backend at most twice, and returns a result only after
  two calls. When there is a second call, the first call was on the model as built
  (objective \<open>maximize\<close> of the revenue expression, no floor), it returned values under
  which the revenue expression has a value \<open>Z\<close>, the model of the second call is the first
  one with those values, the constraint \<open>RevenueExpr \<ge> Z - eps\<close> as \<^verbatim>\<open>m.RevenueFloor\<close> and
  the objective \<open>minimize sum over d of w[d]\<close>, and nothing else changed; and what the
  driver returns is what \<^verbatim>\<open>solve\<close> answers on that model: its exception, or the extraction
  from that model with the values it left. No model handed to the backend has a
  \<open>minimize\<close> objective without a revenue floor, and the backend is consulted at these
  models only: with any other backend whose \<^verbatim>\<open>solve\<close> answers the same on the models
  handed over, the driver hands over the same models and returns the same. The tolerance
  defaults to \<open>1e-6\<close>, which is not negative.
\<close>

theorem revenue_floor_before_tier2:
  "(run_two_tier_demo SolverFactory g eps = (calls, out) \<longrightarrow>
      length calls \<le> 2 \<and>
      (\<forall>m \<in> set calls. (\<exists>e. m_obj m = Some (minimize, e)) \<longrightarrow> m_RevenueFloor m \<noteq> None) \<and>
      (\<forall>m1 m2. calls = [m1, m2] \<longrightarrow>
         build_model g = Inr m1 \<and> m_obj m1 = Some (maximize, m_RevExpr m1) \<and>
         m_RevenueFloor m1 = None \<and>
         (\<exists>solver res2 vals2 Z.
            get_solver SolverFactory = Inr solver \<and> solve solver m1 = Inr (res2, vals2) \<and>
            value_expr vals2 (m_RevExpr m1) = Inr Z \<and>
            m_RevenueFloor m2 = Some (Constr (m_RevExpr m1) GE [] (Z - eps)) \<and>
            m_obj m2 = Some (minimize, map (\<lambda>d. (1, Var_w d)) (m_D m1)) \<and>
            m2 = m1\<lparr>m_vals := vals2, m_RevenueFloor := m_RevenueFloor m2, m_obj := m_obj m2\<rparr> \<and>
            out = (case solve solver m2 of
                     Inl e \<Rightarrow> Inl e
                   | Inr (res3, vals3) \<Rightarrow> demo_extract g (m2\<lparr>m_vals := vals3\<rparr>) Z))) \<and>
      (\<forall>res. out = Inr res \<longrightarrow> length calls = 2) \<and>
      (\<forall>SolverFactory' solver solver'.
          get_solver SolverFactory = Inr solver \<and> get_solver SolverFactory' = Inr solver' \<and>
          (\<forall>m \<in> set calls. solve solver' m = solve solver m) \<longrightarrow>
          run_two_tier_demo SolverFactory' g eps = (calls, out))) \<and>
   (solve_two_tier_lco Factory bookings_arg nd nr capacity_by_day solver_name tol
        = (calls', out') \<longrightarrow>
      length calls' \<le> 2 \<and>
      (\<forall>m \<in> set calls'. (\<exists>e. m_obj m = Some (minimize, e)) \<longrightarrow> m_RevenueFloor m \<noteq> None) \<and>
      (\<forall>m1 m2. calls' = [m1, m2] \<longrightarrow>
         build_static_lco_model bookings_arg nd nr capacity_by_day = Inr m1 \<and>
         m_obj m1 = Some (maximize, m_RevExpr m1) \<and> m_RevenueFloor m1 = None \<and>
         (\<exists>opt res2 vals2 Z.
            Factory solver_name = Inr opt \<and> solve opt m1 = Inr (res2, vals2) \<and>
            value_expr vals2 (m_RevExpr m1) = Inr Z \<and>
            m_RevenueFloor m2 = Some (Constr (m_RevExpr m1) GE [] (Z - tol)) \<and>
            m_obj m2 = Some (minimize, map (\<lambda>d. (1, Var_w d)) (m_D m1)) \<and>
            m2 = m1\<lparr>m_vals := vals2, m_RevenueFloor := m_RevenueFloor m2, m_obj := m_obj m2\<rparr> \<and>
            out' = (case solve opt m2 of
                      Inl e \<Rightarrow> Inl e
                    | Inr (res3, vals3) \<Rightarrow> static_extract (m2\<lparr>m_vals := vals3\<rparr>) Z))) \<and>
      (\<forall>res. out' = Inr res \<longrightarrow> length calls' = 2) \<and>
      (\<forall>Factory' solver_name' opt opt'.
          Factory solver_name = Inr opt \<and> Factory' solver_name' = Inr opt' \<and>
          (\<forall>m \<in> set calls'. solve opt' m = solve opt m) \<longrightarrow>
          solve_two_tier_lco Factory' bookings_arg nd nr capacity_by_day solver_name' tol
            = (calls', out'))) \<and>
   0 \<le> default_eps \<and> default_eps = 1 / 10 ^ 6"
proof (intro conjI impI)
  assume h: "run_two_tier_demo SolverFactory g eps = (calls, out)"
  from h show "length calls \<le> 2" by (cases rule: demo_paths) simp_all
  from h show "\<forall>m \<in> set calls. (\<exists>e. m_obj m = Some (minimize, e)) \<longrightarrow> m_RevenueFloor m \<noteq> None"
  proof (cases rule: demo_paths)
    case none
    then show ?thesis by simp
  next
    case (one m)
    with built_first_model(1)[OF one(1)] show ?thesis by simp
  next
    case (two m solver res2 vals2 Z)
    with built_first_model(1)[OF two(1)] show ?thesis by (simp add: tier_L3_model_fields)
  qed
  from h show "\<forall>m1 m2. calls = [m1, m2] \<longrightarrow>
         build_model g = Inr m1 \<and> m_obj m1 = Some (maximize, m_RevExpr m1) \<and>
         m_RevenueFloor m1 = None \<and>
         (\<exists>solver res2 vals2 Z.
            get_solver SolverFactory = Inr solver \<and> solve solver m1 = Inr (res2, vals2) \<and>
            value_expr vals2 (m_RevExpr m1) = Inr Z \<and>
            m_RevenueFloor m2 = Some (Constr (m_RevExpr m1) GE [] (Z - eps)) \<and>
            m_obj m2 = Some (minimize, map (\<lambda>d. (1, Var_w d)) (m_D m1)) \<and>
            m2 = m1\<lparr>m_vals := vals2, m_RevenueFloor := m_RevenueFloor m2, m_obj := m_obj m2\<rparr> \<and>
            out = (case solve solver m2 of
                     Inl e \<Rightarrow> Inl e
                   | Inr (res3, vals3) \<Rightarrow> demo_extract g (m2\<lparr>m_vals := vals3\<rparr>) Z))"
  proof (cases rule: demo_paths)
    case none
    then show ?thesis by simp
  next
    case (one m)
    then show ?thesis by simp
  next
    case (two m solver res2 vals2 Z)
    let ?T = "tier_L3_model m vals2 Z eps"
    have T: "?T = m\<lparr>m_vals := vals2, m_RevenueFloor := m_RevenueFloor ?T, m_obj := m_obj ?T\<rparr>"
      by (simp add: tier_L3_model_def)
    have ex: "\<exists>solver res2 vals2 Z.
            get_solver SolverFactory = Inr solver \<and> solve solver m = Inr (res2, vals2) \<and>
            value_expr vals2 (m_RevExpr m) = Inr Z \<and>
            m_RevenueFloor ?T = Some (Constr (m_RevExpr m) GE [] (Z - eps)) \<and>
            m_obj ?T = Some (minimize, map (\<lambda>d. (1, Var_w d)) (m_D m)) \<and>
            ?T = m\<lparr>m_vals := vals2, m_RevenueFloor := m_RevenueFloor ?T, m_obj := m_obj ?T\<rparr> \<and>
            out = (case solve solver ?T of
                     Inl e \<Rightarrow> Inl e
                   | Inr (res3, vals3) \<Rightarrow> demo_extract g (?T\<lparr>m_vals := vals3\<rparr>) Z)"
      apply (rule exI[of _ solver], rule exI[of _ res2], rule exI[of _ vals2], rule exI[of _ Z])
      apply (intro conjI)
      apply (rule two(2) two(3) two(4) tier_L3_model_fields(1) tier_L3_model_fields(2) T two(7))+
      done
    show ?thesis
    proof (intro allI impI)
      fix m1 m2 assume "calls = [m1, m2]"
      with two(6) have e: "m1 = m" "m2 = ?T" by simp_all
      from built_first_model(1)[OF two(1)] two(1) ex
      show "build_model g = Inr m1 \<and> m_obj m1 = Some (maximize, m_RevExpr m1) \<and>
         m_RevenueFloor m1 = None \<and>
         (\<exists>solver res2 vals2 Z.
            get_solver SolverFactory = Inr solver \<and> solve solver m1 = Inr (res2, vals2) \<and>
            value_expr vals2 (m_RevExpr m1) = Inr Z \<and>
            m_RevenueFloor m2 = Some (Constr (m_RevExpr m1) GE [] (Z - eps)) \<and>
            m_obj m2 = Some (minimize, map (\<lambda>d. (1, Var_w d)) (m_D m1)) \<and>
            m2 = m1\<lparr>m_vals := vals2, m_RevenueFloor := m_RevenueFloor m2, m_obj := m_obj m2\<rparr> \<and>
            out = (case solve solver m2 of
                     Inl e \<Rightarrow> Inl e
                   | Inr (res3, vals3) \<Rightarrow> demo_extract g (m2\<lparr>m_vals := vals3\<rparr>) Z))"
        unfolding e by (intro conjI) blast+
    qed
  qed
  show "\<forall>res. out = Inr res \<longrightarrow> length calls = 2"
  proof (intro allI impI)
    fix res assume "out = Inr res"
    with h have "run_two_tier_demo SolverFactory g eps = (calls, Inr res)" by simp
    then show "length calls = 2" by (rule demo_result_path) simp
  qed
  show "\<forall>SolverFactory' solver solver'.
          get_solver SolverFactory = Inr solver \<and> get_solver SolverFactory' = Inr solver' \<and>
          (\<forall>m \<in> set calls. solve solver' m = solve solver m) \<longrightarrow>
          run_two_tier_demo SolverFactory' g eps = (calls, out)"
    using demo_solver_agree[OF h] by blast
next
  assume h: "solve_two_tier_lco Factory bookings_arg nd nr capacity_by_day solver_name tol
        = (calls', out')"
  from h show "length calls' \<le> 2" by (cases rule: static_paths) simp_all
  from h show "\<forall>m \<in> set calls'. (\<exists>e. m_obj m = Some (minimize, e)) \<longrightarrow> m_RevenueFloor m \<noteq> None"
  proof (cases rule: static_paths)
    case none
    then show ?thesis by simp
  next
    case (one m)
    with built_first_model(2)[OF one(1)] show ?thesis by simp
  next
    case (two m opt res2 vals2 Z)
    with built_first_model(2)[OF two(1)] show ?thesis by (simp add: tier_L3_model_fields)
  qed
  from h show "\<forall>m1 m2. calls' = [m1, m2] \<longrightarrow>
         build_static_lco_model bookings_arg nd nr capacity_by_day = Inr m1 \<and>
         m_obj m1 = Some (maximize, m_RevExpr m1) \<and> m_RevenueFloor m1 = None \<and>
         (\<exists>opt res2 vals2 Z.
            Factory solver_name = Inr opt \<and> solve opt m1 = Inr (res2, vals2) \<and>
            value_expr vals2 (m_RevExpr m1) = Inr Z \<and>
            m_RevenueFloor m2 = Some (Constr (m_RevExpr m1) GE [] (Z - tol)) \<and>
            m_obj m2 = Some (minimize, map (\<lambda>d. (1, Var_w d)) (m_D m1)) \<and>
            m2 = m1\<lparr>m_vals := vals2, m_RevenueFloor := m_RevenueFloor m2, m_obj := m_obj m2\<rparr> \<and>
            out' = (case solve opt m2 of
                      Inl e \<Rightarrow> Inl e
                    | Inr (res3, vals3) \<Rightarrow> static_extract (m2\<lparr>m_vals := vals3\<rparr>) Z))"
  proof (cases rule: static_paths)
    case none
    then show ?thesis by simp
  next
    case (one m)
    then show ?thesis by simp
  next
    case (two m opt res2 vals2 Z)
    let ?T = "tier_L3_model m vals2 Z tol"
    have T: "?T = m\<lparr>m_vals := vals2, m_RevenueFloor := m_RevenueFloor ?T, m_obj := m_obj ?T\<rparr>"
      by (simp add: tier_L3_model_def)
    have ex: "\<exists>opt res2 vals2 Z.
            Factory solver_name = Inr opt \<and> solve opt m = Inr (res2, vals2) \<and>
            value_expr vals2 (m_RevExpr m) = Inr Z \<and>
            m_RevenueFloor ?T = Some (Constr (m_RevExpr m) GE [] (Z - tol)) \<and>
            m_obj ?T = Some (minimize, map (\<lambda>d. (1, Var_w d)) (m_D m)) \<and>
            ?T = m\<lparr>m_vals := vals2, m_RevenueFloor := m_RevenueFloor ?T, m_obj := m_obj ?T\<rparr> \<and>
            out' = (case solve opt ?T of
                     Inl e \<Rightarrow> Inl e
                   | Inr (res3, vals3) \<Rightarrow> static_extract (?T\<lparr>m_vals := vals3\<rparr>) Z)"
      apply (rule exI[of _ opt], rule exI[of _ res2], rule exI[of _ vals2], rule exI[of _ Z])
      apply (intro conjI)
      apply (rule two(2) two(3) two(4) tier_L3_model_fields(1) tier_L3_model_fields(2) T two(7))+
      done
    show ?thesis
    proof (intro allI impI)
      fix m1 m2 assume "calls' = [m1, m2]"
      with two(6) have e: "m1 = m" "m2 = ?T" by simp_all
      from built_first_model(2)[OF two(1)] two(1) ex
      show "build_static_lco_model bookings_arg nd nr capacity_by_day = Inr m1 \<and> m_obj m1 = Some (maximize, m_RevExpr m1) \<and>
         m_RevenueFloor m1 = None \<and>
         (\<exists>opt res2 vals2 Z.
            Factory solver_name = Inr opt \<and> solve opt m1 = Inr (res2, vals2) \<and>
            value_expr vals2 (m_RevExpr m1) = Inr Z \<and>
            m_RevenueFloor m2 = Some (Constr (m_RevExpr m1) GE [] (Z - tol)) \<and>
            m_obj m2 = Some (minimize, map (\<lambda>d. (1, Var_w d)) (m_D m1)) \<and>
            m2 = m1\<lparr>m_vals := vals2, m_RevenueFloor := m_RevenueFloor m2, m_obj := m_obj m2\<rparr> \<and>
            out' = (case solve opt m2 of
                     Inl e \<Rightarrow> Inl e
                   | Inr (res3, vals3) \<Rightarrow> static_extract (m2\<lparr>m_vals := vals3\<rparr>) Z))"
        unfolding e by (intro conjI) blast+
    qed
  qed
  show "\<forall>res. out' = Inr res \<longrightarrow> length calls' = 2"
  proof (intro allI impI)
    fix res assume "out' = Inr res"
    with h have "solve_two_tier_lco Factory bookings_arg nd nr capacity_by_day solver_name tol
        = (calls', Inr res)" by simp
    then show "length calls' = 2" by (rule static_result_path) simp
  qed
  show "\<forall>Factory' solver_name' opt opt'.
          Factory solver_name = Inr opt \<and> Factory' solver_name' = Inr opt' \<and>
          (\<forall>m \<in> set calls'. solve opt' m = solve opt m) \<longrightarrow>
          solve_two_tier_lco Factory' bookings_arg nd nr capacity_by_day solver_name' tol
            = (calls', out')"
    using static_solver_agree[OF h] by blast
next
  show "0 \<le> default_eps" "default_eps = 1 / 10 ^ 6" by (simp_all add: default_eps_def)
qed

text \<open>On the small instance with the backend above, for both drivers: two calls, no floor
  in the first model, and in the second the floor \<open>200 a[1] + 320 a[2] \<ge> 520 - 1e-6\<close> and the
  slack objective. With the backend that refuses a slack objective without a floor the
  drivers do the same; that backend does refuse the second model once its floor is
  taken away.\<close>

theorem revenue_floor_before_tier2_witness:
  "length (fst (run_two_tier_demo ex_factory ex_globals default_eps)) = 2 \<and>
   m_RevenueFloor (fst (run_two_tier_demo ex_factory ex_globals default_eps) ! 0) = None \<and>
   m_RevenueFloor (fst (run_two_tier_demo ex_factory ex_globals default_eps) ! 1)
     = Some (Constr [(200, Var_a 1), (320, Var_a 2)] GE [] (520 - 1 / 10 ^ 6)) \<and>
   m_obj (fst (run_two_tier_demo ex_factory ex_globals default_eps) ! 1)
     = Some (minimize, [(1, Var_w 1), (1, Var_w 2), (1, Var_w 3)]) \<and>
   length (fst (solve_two_tier_lco ex_factory (Some ex_bookings) 3 2 None ''highs'' default_eps)) = 2 \<and>
   m_RevenueFloor
     (fst (solve_two_tier_lco ex_factory (Some ex_bookings) 3 2 None ''highs'' default_eps) ! 1)
     = Some (Constr [(200, Var_a 1), (320, Var_a 2)] GE [] (520 - 1 / 10 ^ 6)) \<and>
   m_obj (fst (solve_two_tier_lco ex_factory (Some ex_bookings) 3 2 None ''highs'' default_eps) ! 1)
     = Some (minimize, [(1, Var_w 1), (1, Var_w 2), (1, Var_w 3)]) \<and>
   run_two_tier_demo ex_guarded_factory ex_globals default_eps
     = run_two_tier_demo ex_factory ex_globals default_eps \<and>
   solve_two_tier_lco ex_guarded_factory (Some ex_bookings) 3 2 None ''cbc'' default_eps
     = solve_two_tier_lco ex_factory (Some ex_bookings) 3 2 None ''highs'' default_eps \<and>
   isl (solve ex_guarded_backend
          ((fst (run_two_tier_demo ex_factory ex_globals default_eps) ! 1)
             \<lparr>m_RevenueFloor := None\<rparr>))"
proof -
  from ex_mini_built obtain m where m: "build_model ex_globals = Inr m" by blast
  from ex_static_built obtain m' where
    m': "build_static_lco_model (Some ex_bookings) 3 2 None = Inr m'" by blast
  let ?V = "\<lambda>x. Some (ex_valuation x)"
  let ?run = "run_two_tier_demo ex_factory ex_globals default_eps"
  let ?run' = "solve_two_tier_lco ex_factory (Some ex_bookings) 3 2 None ''highs'' default_eps"
  let ?T = "tier_L3_model m ?V 520 default_eps"
  let ?T' = "tier_L3_model m' ?V 520 default_eps"
  note c = ex_demo_calls[OF m, of default_eps] and c' = ex_static_calls[OF m', of default_eps]
  note t = revenue_floor_before_tier2
    [where SolverFactory = ex_factory and g = ex_globals and eps = default_eps
       and calls = "fst ?run" and out = "snd ?run" and Factory = ex_factory
       and bookings_arg = "Some ex_bookings" and nd = 3 and nr = 2 and capacity_by_day = None
       and solver_name = "''highs''" and tol = default_eps and calls' = "fst ?run'"
       and out' = "snd ?run'"]
  have p: "?run = (fst ?run, snd ?run)" "?run' = (fst ?run', snd ?run')" by simp_all
  note t1 = t[THEN conjunct1, THEN mp, OF p(1)]
    and t2 = t[THEN conjunct2, THEN conjunct1, THEN mp, OF p(2)]
    and t3 = t[THEN conjunct2, THEN conjunct2]
  note t1c = t1[THEN conjunct2, THEN conjunct2, THEN conjunct1, THEN spec, THEN spec, THEN mp, OF c]
  note t2c = t2[THEN conjunct2, THEN conjunct2, THEN conjunct1, THEN spec, THEN spec, THEN mp, OF c']
  note t1e = t1[THEN conjunct2, THEN conjunct2, THEN conjunct2, THEN conjunct2,
      THEN spec[where x = ex_guarded_factory], THEN spec[where x = ex_backend],
      THEN spec[where x = ex_guarded_backend], THEN mp]
  note t2e = t2[THEN conjunct2, THEN conjunct2, THEN conjunct2, THEN conjunct2,
      THEN spec[where x = ex_guarded_factory], THEN spec[where x = "''cbc''"],
      THEN spec[where x = ex_backend], THEN spec[where x = ex_guarded_backend], THEN mp]
  have d: "m_D m = [1, 2, 3]" "m_D m' = [1, 2, 3]"
    using build_model_frame(3)[OF m] build_static_frame(3)[OF m']
    by (simp_all add: ex_mini_sets upto_from_1)
  have r: "m_RevExpr m = [(200, Var_a 1), (320, Var_a 2)]"
    "m_RevExpr m' = [(200, Var_a 1), (320, Var_a 2)]"
    by (rule ex_mini_RevExpr[OF m], rule ex_static_RevExpr[OF m'])
  have s: "solve ex_backend x = Inr (OPTIMAL, \<lambda>x. Some (ex_valuation x))" for x
    by (simp add: ex_backend_def)
  have v: "value_expr (\<lambda>x. Some (ex_valuation x)) [(200, Var_a 1), (320, Var_a 2)] = Inr 520"
    by (simp add: value_var_def ex_valuation_def)
  from t1c have 1:
    "m_RevenueFloor m = None"
    "m_RevenueFloor ?T = Some (Constr [(200, Var_a 1), (320, Var_a 2)] GE [] (520 - default_eps))"
    "m_obj ?T = Some (minimize, [(1, Var_w 1), (1, Var_w 2), (1, Var_w 3)])"
    by (auto simp: ex_get_solver s r d value_var_def ex_valuation_def)
  from t2c have 2:
    "m_RevenueFloor ?T' = Some (Constr [(200, Var_a 1), (320, Var_a 2)] GE [] (520 - default_eps))"
    "m_obj ?T' = Some (minimize, [(1, Var_w 1), (1, Var_w 2), (1, Var_w 3)])"
    by (auto simp: ex_factory_def s r d value_var_def ex_valuation_def)
  have gs: "get_solver ex_guarded_factory = Inr ex_guarded_backend"
    by (simp add: get_solver_def ex_guarded_factory_def ex_guarded_backend_def)
  have a: "solve ex_guarded_backend m = solve ex_backend m"
    "solve ex_guarded_backend ?T = solve ex_backend ?T"
    "solve ex_guarded_backend m' = solve ex_backend m'"
    "solve ex_guarded_backend ?T' = solve ex_backend ?T'"
    using built_first_model(1)[OF m] built_first_model(2)[OF m']
    by (simp_all add: ex_guarded_backend_def ex_backend_def tier_L3_model_fields)
  have "run_two_tier_demo ex_guarded_factory ex_globals default_eps = (fst ?run, snd ?run)"
    by (rule t1e) (simp add: ex_get_solver gs c a)
  then have 3: "run_two_tier_demo ex_guarded_factory ex_globals default_eps = ?run" by simp
  have "solve_two_tier_lco ex_guarded_factory (Some ex_bookings) 3 2 None ''cbc'' default_eps
      = (fst ?run', snd ?run')"
    by (rule t2e) (simp add: ex_factory_def ex_guarded_factory_def c' a)
  then have 4: "solve_two_tier_lco ex_guarded_factory (Some ex_bookings) 3 2 None ''cbc''
      default_eps = ?run'" by simp
  have 5: "isl (solve ex_guarded_backend (?T\<lparr>m_RevenueFloor := None\<rparr>))"
    by (simp add: ex_guarded_backend_def tier_L3_model_fields)
  from 1 2 3 4 5 show ?thesis
    unfolding c c' using t3 by simp
qed

section \<open>A failed Tier-1 solve\<close>

text \<open>
  Claim C3 says that a Tier-1 solve that fails is surfaced to the caller with the tier
  named, and that neither the floor is injected nor Tier-2 run. Neither driver reads the
  result of a solve. With a backend that returns status \<open>INFEASIBLE\<close> from the first solve
  (and leaves values on the variables) both drivers call the backend a second time and
  return a result:
\<close>

theorem tier1_failure_not_surfaced:
  "map_sum id fst (solve ex_failing_backend (projr (build_model ex_globals))) = Inr INFEASIBLE \<and>
   length (fst (run_two_tier_demo ex_failing_factory ex_globals default_eps)) = 2 \<and>
   \<not> isl (snd (run_two_tier_demo ex_failing_factory ex_globals default_eps)) \<and>
   map_sum id fst
     (solve ex_failing_backend (projr (build_static_lco_model (Some ex_bookings) 3 2 None)))
     = Inr INFEASIBLE \<and>
   length (fst (solve_two_tier_lco ex_failing_factory (Some ex_bookings) 3 2 None ''highs''
                  default_eps)) = 2 \<and>
   \<not> isl (snd (solve_two_tier_lco ex_failing_factory (Some ex_bookings) 3 2 None ''highs''
                  default_eps))"
proof -
  from ex_mini_built obtain m where m: "build_model ex_globals = Inr m" by blast
  from ex_static_built obtain m' where
    m': "build_static_lco_model (Some ex_bookings) 3 2 None = Inr m'" by blast
  from ex_failing_demo[OF m, of default_eps] ex_failing_static[OF m', of default_eps]
  show ?thesis by (simp add: ex_solves)
qed

text \<open>
  Claim C3 as amended. When the Tier-1 solve call raises, the driver ends with that
  exception as it is (no tier is named), after one backend call and with no floor injected;
  the same holds when the revenue expression has no value after the solve because a
  variable was left without one. The status a solve returns is never read: replacing the
  statuses of a backend by any others changes neither the calls nor the outcome of a
  driver, and a Tier-1 solve that returns, with whatever status, and leaves the revenue
  expression a value is followed by the floor injection and the Tier-2 solve.
\<close>

theorem solve_status_never_read:
  "(build_model g = Inr m \<and> get_solver SolverFactory = Inr solver \<longrightarrow>
      (solve solver m = Inl e \<longrightarrow> run_two_tier_demo SolverFactory g eps = ([m], Inl e)) \<and>
      (solve solver m = Inr (st, vals) \<and> value_expr vals (m_RevExpr m) = Inl e \<longrightarrow>
         run_two_tier_demo SolverFactory g eps = ([m], Inl e)) \<and>
      (solve solver m = Inr (st, vals) \<and> value_expr vals (m_RevExpr m) = Inr Z
          \<and> m_RevExpr m \<noteq> [] \<longrightarrow>
         fst (run_two_tier_demo SolverFactory g eps) = [m, tier_L3_model m vals Z eps])) \<and>
   run_two_tier_demo (map_sum id (with_status f) \<circ> SolverFactory) g eps
     = run_two_tier_demo SolverFactory g eps \<and>
   (build_static_lco_model bookings_arg nd nr capacity_by_day = Inr m'
       \<and> SolverFactory solver_name = Inr opt \<longrightarrow>
      (solve opt m' = Inl e \<longrightarrow>
         solve_two_tier_lco SolverFactory bookings_arg nd nr capacity_by_day solver_name tol
           = ([m'], Inl e)) \<and>
      (solve opt m' = Inr (st, vals) \<and> value_expr vals (m_RevExpr m') = Inl e \<longrightarrow>
         solve_two_tier_lco SolverFactory bookings_arg nd nr capacity_by_day solver_name tol
           = ([m'], Inl e)) \<and>
      (solve opt m' = Inr (st, vals) \<and> value_expr vals (m_RevExpr m') = Inr Z
          \<and> m_RevExpr m' \<noteq> [] \<longrightarrow>
         fst (solve_two_tier_lco SolverFactory bookings_arg nd nr capacity_by_day solver_name tol)
           = [m', tier_L3_model m' vals Z tol])) \<and>
   solve_two_tier_lco (map_sum id (with_status f) \<circ> SolverFactory) bookings_arg nd nr
       capacity_by_day solver_name tol
     = solve_two_tier_lco SolverFactory bookings_arg nd nr capacity_by_day solver_name tol"
proof (intro conjI impI)
  assume h: "build_model g = Inr m \<and> get_solver SolverFactory = Inr solver"
  show "run_two_tier_demo SolverFactory g eps = ([m], Inl e)" if "solve solver m = Inl e"
    using h that by (simp add: run_two_tier_demo_eq)
  show "run_two_tier_demo SolverFactory g eps = ([m], Inl e)"
    if "solve solver m = Inr (st, vals) \<and> value_expr vals (m_RevExpr m) = Inl e"
    using h that by (simp add: run_two_tier_demo_eq)
  show "fst (run_two_tier_demo SolverFactory g eps) = [m, tier_L3_model m vals Z eps]"
    if "solve solver m = Inr (st, vals) \<and> value_expr vals (m_RevExpr m) = Inr Z
          \<and> m_RevExpr m \<noteq> []"
    using h that by (simp add: run_two_tier_demo_eq)
next
  show "run_two_tier_demo (map_sum id (with_status f) \<circ> SolverFactory) g eps
     = run_two_tier_demo SolverFactory g eps"
    by (rule demo_status_ignored)
next
  assume h: "build_static_lco_model bookings_arg nd nr capacity_by_day = Inr m'
       \<and> SolverFactory solver_name = Inr opt"
  show "solve_two_tier_lco SolverFactory bookings_arg nd nr capacity_by_day solver_name tol
           = ([m'], Inl e)" if "solve opt m' = Inl e"
    using h that by (simp add: solve_two_tier_lco_eq)
  show "solve_two_tier_lco SolverFactory bookings_arg nd nr capacity_by_day solver_name tol
           = ([m'], Inl e)"
    if "solve opt m' = Inr (st, vals) \<and> value_expr vals (m_RevExpr m') = Inl e"
    using h that by (simp add: solve_two_tier_lco_eq)
  show "fst (solve_two_tier_lco SolverFactory bookings_arg nd nr capacity_by_day solver_name tol)
           = [m', tier_L3_model m' vals Z tol]"
    if "solve opt m' = Inr (st, vals) \<and> value_expr vals (m_RevExpr m') = Inr Z
          \<and> m_RevExpr m' \<noteq> []"
    using h that by (simp add: solve_two_tier_lco_eq)
next
  show "solve_two_tier_lco (map_sum id (with_status f) \<circ> SolverFactory) bookings_arg nd nr
       capacity_by_day solver_name tol
     = solve_two_tier_lco SolverFactory bookings_arg nd nr capacity_by_day solver_name tol"
    by (rule static_status_ignored)
qed

text \<open>On the small instance with the three failing backends: the raising one and the one
  that loads nothing end the driver after one call with the exception; the one that
  returns \<open>INFEASIBLE\<close> with values gets its second call.\<close>

theorem solve_status_never_read_witness:
  "run_two_tier_demo ex_raising_factory ex_globals default_eps
     = ([projr (build_model ex_globals)], Inl (BackendError ''no feasible solution'')) \<and>
   run_two_tier_demo ex_silent_factory ex_globals default_eps
     = ([projr (build_model ex_globals)], Inl (NoValue (Var_a 1))) \<and>
   length (fst (run_two_tier_demo ex_failing_factory ex_globals default_eps)) = 2 \<and>
   solve_two_tier_lco ex_raising_factory (Some ex_bookings) 3 2 None ''highs'' default_eps
     = ([projr (build_static_lco_model (Some ex_bookings) 3 2 None)],
        Inl (BackendError ''no feasible solution'')) \<and>
   solve_two_tier_lco ex_silent_factory (Some ex_bookings) 3 2 None ''highs'' default_eps
     = ([projr (build_static_lco_model (Some ex_bookings) 3 2 None)], Inl (NoValue (Var_a 1))) \<and>
   length (fst (solve_two_tier_lco ex_failing_factory (Some ex_bookings) 3 2 None ''highs''
                  default_eps)) = 2"
proof -
  from ex_mini_built obtain m where m: "build_model ex_globals = Inr m" by blast
  from ex_static_built obtain m' where
    m': "build_static_lco_model (Some ex_bookings) 3 2 None = Inr m'" by blast
  note r = ex_mini_RevExpr[OF m] ex_static_RevExpr[OF m']
  have v: "m_vals m = Map.empty" "m_vals m' = Map.empty"
    by (rule build_model_frame(8)[OF m], rule build_static_frame(10)[OF m'])
  note t1 = solve_status_never_read
    [of ex_globals m ex_raising_factory ex_raising_backend "BackendError ''no feasible solution''"
        default_eps INFEASIBLE Map.empty 0 id "Some ex_bookings" 3 2 None m' "''highs''"
        ex_raising_backend default_eps]
  note t2 = solve_status_never_read
    [of ex_globals m ex_silent_factory ex_silent_backend "NoValue (Var_a 1)"
        default_eps INFEASIBLE Map.empty 0 id "Some ex_bookings" 3 2 None m' "''highs''"
        ex_silent_backend default_eps]
  note t3 = solve_status_never_read
    [of ex_globals m ex_failing_factory ex_failing_backend "NoValue (Var_a 1)"
        default_eps INFEASIBLE "\<lambda>x. Some 0" 0 id "Some ex_bookings" 3 2 None m' "''highs''"
        ex_failing_backend default_eps]
  from t1 t2 t3 m m' show ?thesis
    by (simp add: ex_get_solvers ex_solves r v value_var_def ex_raising_factory_def
          ex_silent_factory_def ex_failing_factory_def)
qed

section \<open>Solution extraction\<close>

text \<open>
  Claim C9. Extraction in either driver, when it returns a result: the accepted bookings
  are the bookings of \<^verbatim>\<open>m.B\<close>, in order, whose accept variable has a value above \<open>0.5\<close>; each
  of them is reported with its stay days and with the first room of \<^verbatim>\<open>m.R\<close> whose
  assignment variable exists and has a value above \<open>0.5\<close> on every one of those days, and
  with \<^verbatim>\<open>None\<close> exactly when no room of \<^verbatim>\<open>m.R\<close> is such a room. It does return a result,
  with or without such a room, whenever every declared variable has a value (and the
  bookings of the model are known: those of the module in the mini driver, those with a
  start and a length in the static one). In the drivers a result is returned only after
  exactly two calls of the backend, and it is the extraction from the second model with
  the values of the second solve; when that solve leaves a value on every declared
  variable, the driver returns a result. Extraction takes no solver and returns nothing
  but the result, so it makes no call and leaves the model as it is.
\<close>

theorem solution_extraction:
  "(demo_extract g m Z = Inr res \<longrightarrow>
      map fst (r_accepted_bookings res) = [b \<leftarrow> m_B m. above_half (m_vals m) (Var_a b)] \<and>
      (\<forall>(b, sd, room) \<in> set (r_accepted_bookings res).
          stay_days g b = Inr sd \<and> room = find (room_fits m b sd) (m_R m) \<and>
          (case room of Some r \<Rightarrow> r \<in> set (m_R m) \<and> room_fits m b sd r
                      | None \<Rightarrow> (\<forall>r \<in> set (m_R m). \<not> room_fits m b sd r)))) \<and>
   ((\<forall>x \<in> declared m. m_vals m x \<noteq> None) \<and> set (m_B m) \<subseteq> set (B g) \<longrightarrow>
      (\<exists>res. demo_extract g m Z = Inr res)) \<and>
   (run_two_tier_demo SolverFactory g eps = (calls, Inr res) \<longrightarrow>
      (\<exists>m1 m2 solver st vals3 Z2.
          calls = [m1, m2] \<and> get_solver SolverFactory = Inr solver \<and>
          solve solver m2 = Inr (st, vals3) \<and>
          demo_extract g (m2\<lparr>m_vals := vals3\<rparr>) Z2 = Inr res)) \<and>
   (run_two_tier_demo SolverFactory g eps = ([m1, m2], out) \<and>
    get_solver SolverFactory = Inr solver \<and> solve solver m2 = Inr (st, vals3) \<and>
    (\<forall>x \<in> declared m2. vals3 x \<noteq> None) \<longrightarrow> (\<exists>res. out = Inr res)) \<and>
   (static_extract m Z = Inr res' \<longrightarrow>
      accepted_bookings res' = [b \<leftarrow> m_B m. above_half (m_vals m) (Var_a b)] \<and>
      map fst (room_assignments res') = accepted_bookings res' \<and>
      (\<forall>(b, room, sd) \<in> set (room_assignments res').
          static_stay_days (m_D m) (m_start m) (m_length m) b = Inr sd \<and>
          room = find (room_fits m b sd) (m_R m) \<and>
          (case room of Some r \<Rightarrow> r \<in> set (m_R m) \<and> room_fits m b sd r
                      | None \<Rightarrow> (\<forall>r \<in> set (m_R m). \<not> room_fits m b sd r)))) \<and>
   ((\<forall>x \<in> declared m. m_vals m x \<noteq> None) \<and>
    (\<forall>b \<in> set (m_B m). m_start m b \<noteq> None \<and> m_length m b \<noteq> None) \<longrightarrow>
      (\<exists>res. static_extract m Z = Inr res)) \<and>
   (solve_two_tier_lco SolverFactory' bookings_arg nd nr capacity_by_day solver_name tol
        = (calls', Inr res') \<longrightarrow>
      (\<exists>m1 m2 opt st vals3 Z2.
          calls' = [m1, m2] \<and> SolverFactory' solver_name = Inr opt \<and>
          solve opt m2 = Inr (st, vals3) \<and>
          static_extract (m2\<lparr>m_vals := vals3\<rparr>) Z2 = Inr res')) \<and>
   (solve_two_tier_lco SolverFactory' bookings_arg nd nr capacity_by_day solver_name tol
        = ([m1', m2'], out') \<and>
    SolverFactory' solver_name = Inr opt \<and> solve opt m2' = Inr (st', vals3') \<and>
    (\<forall>x \<in> declared m2'. vals3' x \<noteq> None) \<longrightarrow> (\<exists>res. out' = Inr res))"
proof (intro conjI impI)
  assume h: "demo_extract g m Z = Inr res"
  show "map fst (r_accepted_bookings res) = [b \<leftarrow> m_B m. above_half (m_vals m) (Var_a b)]"
    by (rule demo_extract_Inr(1)[OF h])
  show "\<forall>(b, sd, room) \<in> set (r_accepted_bookings res).
          stay_days g b = Inr sd \<and> room = find (room_fits m b sd) (m_R m) \<and>
          (case room of Some r \<Rightarrow> r \<in> set (m_R m) \<and> room_fits m b sd r
                      | None \<Rightarrow> (\<forall>r \<in> set (m_R m). \<not> room_fits m b sd r))"
  proof (clarify, intro conjI)
    fix b sd room assume "(b, sd, room) \<in> set (r_accepted_bookings res)"
    with demo_extract_Inr(2)[OF h]
    have a: "stay_days g b = Inr sd" "room = find (room_fits m b sd) (m_R m)" by auto
    show "stay_days g b = Inr sd" "room = find (room_fits m b sd) (m_R m)" by (rule a)+
    show "case room of Some r \<Rightarrow> r \<in> set (m_R m) \<and> room_fits m b sd r
                     | None \<Rightarrow> (\<forall>r \<in> set (m_R m). \<not> room_fits m b sd r)"
      by (rule room_found[OF a(2)])
  qed
next
  assume "(\<forall>x \<in> declared m. m_vals m x \<noteq> None) \<and> set (m_B m) \<subseteq> set (B g)"
  then show "\<exists>res. demo_extract g m Z = Inr res" by (simp add: demo_extract_total)
next
  assume "run_two_tier_demo SolverFactory g eps = (calls, Inr res)"
  then show "\<exists>m1 m2 solver st vals3 Z2.
          calls = [m1, m2] \<and> get_solver SolverFactory = Inr solver \<and>
          solve solver m2 = Inr (st, vals3) \<and>
          demo_extract g (m2\<lparr>m_vals := vals3\<rparr>) Z2 = Inr res"
    by (rule demo_result_path) blast
next
  assume "run_two_tier_demo SolverFactory g eps = ([m1, m2], out) \<and>
    get_solver SolverFactory = Inr solver \<and> solve solver m2 = Inr (st, vals3) \<and>
    (\<forall>x \<in> declared m2. vals3 x \<noteq> None)"
  then show "\<exists>res. out = Inr res" using demo_second_solve_total by blast
next
  assume h: "static_extract m Z = Inr res'"
  show "accepted_bookings res' = [b \<leftarrow> m_B m. above_half (m_vals m) (Var_a b)]"
    by (rule static_extract_Inr(1)[OF h])
  show "map fst (room_assignments res') = accepted_bookings res'"
    by (rule static_extract_Inr(2)[OF h])
  show "\<forall>(b, room, sd) \<in> set (room_assignments res').
          static_stay_days (m_D m) (m_start m) (m_length m) b = Inr sd \<and>
          room = find (room_fits m b sd) (m_R m) \<and>
          (case room of Some r \<Rightarrow> r \<in> set (m_R m) \<and> room_fits m b sd r
                      | None \<Rightarrow> (\<forall>r \<in> set (m_R m). \<not> room_fits m b sd r))"
  proof (clarify, intro conjI)
    fix b sd room assume "(b, room, sd) \<in> set (room_assignments res')"
    with static_extract_Inr(3)[OF h]
    have a: "static_stay_days (m_D m) (m_start m) (m_length m) b = Inr sd"
      "room = find (room_fits m b sd) (m_R m)" by auto
    show "static_stay_days (m_D m) (m_start m) (m_length m) b = Inr sd"
      "room = find (room_fits m b sd) (m_R m)" by (rule a)+
    show "case room of Some r \<Rightarrow> r \<in> set (m_R m) \<and> room_fits m b sd r
                     | None \<Rightarrow> (\<forall>r \<in> set (m_R m). \<not> room_fits m b sd r)"
      by (rule room_found[OF a(2)])
  qed
next
  assume "(\<forall>x \<in> declared m. m_vals m x \<noteq> None) \<and>
    (\<forall>b \<in> set (m_B m). m_start m b \<noteq> None \<and> m_length m b \<noteq> None)"
  then show "\<exists>res. static_extract m Z = Inr res" by (simp add: static_extract_total)
next
  assume "solve_two_tier_lco SolverFactory' bookings_arg nd nr capacity_by_day solver_name tol
        = (calls', Inr res')"
  then show "\<exists>m1 m2 opt st vals3 Z2.
          calls' = [m1, m2] \<and> SolverFactory' solver_name = Inr opt \<and>
          solve opt m2 = Inr (st, vals3) \<and>
          static_extract (m2\<lparr>m_vals := vals3\<rparr>) Z2 = Inr res'"
    by (rule static_result_path) blast
next
  assume "solve_two_tier_lco SolverFactory' bookings_arg nd nr capacity_by_day solver_name tol
        = ([m1', m2'], out') \<and>
    SolverFactory' solver_name = Inr opt \<and> solve opt m2' = Inr (st', vals3') \<and>
    (\<forall>x \<in> declared m2'. vals3' x \<noteq> None)"
  then show "\<exists>res. out' = Inr res" using static_second_solve_total by blast
qed

text \<open>On the small instance both drivers return both bookings, booking \<open>b\<close> in room \<open>b\<close>;
  with every assignment variable at one half, extraction from the same model returns both
  bookings with room \<^verbatim>\<open>None\<close>.\<close>

theorem solution_extraction_witness:
  "snd ex_demo_run
     = Inr \<lparr>r_Z2 = 520, r_slack_sum = 0, r_daily_slack = [(1, 0), (2, 0), (3, 0)],
            r_accepted_bookings = [(1, [1, 2], Some 1), (2, [2, 3], Some 2)]\<rparr> \<and>
   length (fst ex_demo_run) = 2 \<and>
   room_fits ((fst ex_demo_run ! 1)\<lparr>m_vals := \<lambda>x. Some (ex_valuation x)\<rparr>) 1 [1, 2] 1 \<and>
   room_fits ((fst ex_demo_run ! 1)\<lparr>m_vals := \<lambda>x. Some (ex_valuation x)\<rparr>) 2 [2, 3] 2 \<and>
   demo_extract ex_globals ((fst ex_demo_run ! 1)\<lparr>m_vals := ex_split_vals\<rparr>) 520
     = Inr \<lparr>r_Z2 = 520, r_slack_sum = 0, r_daily_slack = [(1, 0), (2, 0), (3, 0)],
            r_accepted_bookings = [(1, [1, 2], None), (2, [2, 3], None)]\<rparr> \<and>
   \<not> room_fits ((fst ex_demo_run ! 1)\<lparr>m_vals := ex_split_vals\<rparr>) 1 [1, 2] 1 \<and>
   \<not> room_fits ((fst ex_demo_run ! 1)\<lparr>m_vals := ex_split_vals\<rparr>) 1 [1, 2] 2 \<and>
   \<not> isl (demo_extract ex_globals ((fst ex_demo_run ! 1)\<lparr>m_vals := ex_split_vals\<rparr>) 0) \<and>
   \<not> isl (snd ex_demo_run) \<and>
   snd ex_static_run
     = Inr \<lparr>revenue_L2 = 520, slack_L3 = 0, accepted_bookings = [1, 2],
            room_assignments = [(1, Some 1, [1, 2]), (2, Some 2, [2, 3])],
            slack_by_day = [(1, 0), (2, 0), (3, 0)]\<rparr> \<and>
   length (fst ex_static_run) = 2 \<and>
   room_fits ((fst ex_static_run ! 1)\<lparr>m_vals := \<lambda>x. Some (ex_valuation x)\<rparr>) 1 [1, 2] 1 \<and>
   room_fits ((fst ex_static_run ! 1)\<lparr>m_vals := \<lambda>x. Some (ex_valuation x)\<rparr>) 2 [2, 3] 2 \<and>
   static_extract ((fst ex_static_run ! 1)\<lparr>m_vals := ex_split_vals\<rparr>) 520
     = Inr \<lparr>revenue_L2 = 520, slack_L3 = 0, accepted_bookings = [1, 2],
            room_assignments = [(1, None, [1, 2]), (2, None, [2, 3])],
            slack_by_day = [(1, 0), (2, 0), (3, 0)]\<rparr> \<and>
   \<not> room_fits ((fst ex_static_run ! 1)\<lparr>m_vals := ex_split_vals\<rparr>) 2 [2, 3] 1 \<and>
   \<not> room_fits ((fst ex_static_run ! 1)\<lparr>m_vals := ex_split_vals\<rparr>) 2 [2, 3] 2 \<and>
   \<not> isl (static_extract ((fst ex_static_run ! 1)\<lparr>m_vals := ex_split_vals\<rparr>) 0) \<and>
   \<not> isl (snd ex_static_run)"
proof -
  from ex_mini_built obtain m where m: "build_model ex_globals = Inr m" by blast
  from ex_static_built obtain m' where
    m': "build_static_lco_model (Some ex_bookings) 3 2 None = Inr m'" by blast
  define T where "T = tier_L3_model m (\<lambda>x. Some (ex_valuation x)) 520 default_eps"
  define T' where "T' = tier_L3_model m' (\<lambda>x. Some (ex_valuation x)) 520 default_eps"
  note run = ex_demo_run_eq[OF m, folded T_def] and run' = ex_static_run_eq[OF m', folded T'_def]
  note f = ex_mini_second_model[OF m, of "\<lambda>x. Some (ex_valuation x)" 520 default_eps, folded T_def]
  note f' = ex_static_second_model[OF m', of "\<lambda>x. Some (ex_valuation x)" 520 default_eps,
      folded T'_def]
  note e = ex_demo_extract[OF f, of 520] and e' = ex_static_extract[OF f', of 520]
  note a = solution_extraction
    [where g = ex_globals and m = "T\<lparr>m_vals := \<lambda>x. Some (ex_valuation x)\<rparr>" and Z = 520,
      THEN conjunct1, THEN mp, OF e(1)]
  note b = solution_extraction
    [where g = ex_globals and m = "T\<lparr>m_vals := ex_split_vals\<rparr>" and Z = 520,
      THEN conjunct1, THEN mp, OF e(2)]
  note c = solution_extraction
    [where SolverFactory = ex_factory and g = ex_globals and eps = default_eps
       and calls = "[m, T]",
      THEN conjunct2, THEN conjunct2, THEN conjunct1, THEN mp,
      OF run[unfolded ex_demo_run_def]]
  note a' = solution_extraction
    [where m = "T'\<lparr>m_vals := \<lambda>x. Some (ex_valuation x)\<rparr>" and Z = 520,
      THEN conjunct2, THEN conjunct2, THEN conjunct2, THEN conjunct2, THEN conjunct1, THEN mp,
      OF e'(1)]
  note b' = solution_extraction
    [where m = "T'\<lparr>m_vals := ex_split_vals\<rparr>" and Z = 520,
      THEN conjunct2, THEN conjunct2, THEN conjunct2, THEN conjunct2, THEN conjunct1, THEN mp,
      OF e'(2)]
  note c' = solution_extraction
    [where SolverFactory' = ex_factory and bookings_arg = "Some ex_bookings" and nd = 3
       and nr = 2 and capacity_by_day = None and solver_name = "''highs''"
       and tol = default_eps and calls' = "[m', T']",
      THEN conjunct2, THEN conjunct2, THEN conjunct2, THEN conjunct2, THEN conjunct2,
      THEN conjunct2, THEN conjunct1, THEN mp, OF run'[unfolded ex_static_run_def]]
  from c obtain m1 m2 where "[m, T] = [m1, m2]" by blast
  then have l: "length (fst ex_demo_run) = 2" by (simp add: run)
  from c' obtain m1' m2' where "[m', T'] = [m1', m2']" by blast
  then have l': "length (fst ex_static_run) = 2" by (simp add: run')
  have r: "room_fits (T\<lparr>m_vals := \<lambda>x. Some (ex_valuation x)\<rparr>) 1 [1, 2] 1"
    "room_fits (T\<lparr>m_vals := \<lambda>x. Some (ex_valuation x)\<rparr>) 2 [2, 3] 2"
    using a[THEN conjunct2, THEN bspec, of "(1, [1, 2], Some 1)"]
      a[THEN conjunct2, THEN bspec, of "(2, [2, 3], Some 2)"]
    unfolding prod.case option.case by simp_all
  have mr: "set (m_R (T\<lparr>m_vals := ex_split_vals\<rparr>)) = {1, 2}"
    "set (m_R (T'\<lparr>m_vals := ex_split_vals\<rparr>)) = {1, 2}" by (simp_all add: f f')
  have n: "\<not> room_fits (T\<lparr>m_vals := ex_split_vals\<rparr>) 1 [1, 2] 1"
    "\<not> room_fits (T\<lparr>m_vals := ex_split_vals\<rparr>) 1 [1, 2] 2"
    using b[THEN conjunct2, THEN bspec, of "(1, [1, 2], None)"]
    unfolding prod.case option.case mr by simp_all
  have r': "room_fits (T'\<lparr>m_vals := \<lambda>x. Some (ex_valuation x)\<rparr>) 1 [1, 2] 1"
    "room_fits (T'\<lparr>m_vals := \<lambda>x. Some (ex_valuation x)\<rparr>) 2 [2, 3] 2"
    using a'[THEN conjunct2, THEN conjunct2, THEN bspec, of "(1, Some 1, [1, 2])"]
      a'[THEN conjunct2, THEN conjunct2, THEN bspec, of "(2, Some 2, [2, 3])"]
    unfolding prod.case option.case by simp_all
  have n': "\<not> room_fits (T'\<lparr>m_vals := ex_split_vals\<rparr>) 2 [2, 3] 1"
    "\<not> room_fits (T'\<lparr>m_vals := ex_split_vals\<rparr>) 2 [2, 3] 2"
    using b'[THEN conjunct2, THEN conjunct2, THEN bspec, of "(2, None, [2, 3])"]
    unfolding prod.case option.case mr by simp_all
  have sv: "solve ex_backend x = Inr (OPTIMAL, \<lambda>x. Some (ex_valuation x))" for x
    by (simp add: ex_backend_def)
  have "\<exists>res. demo_extract ex_globals (T\<lparr>m_vals := ex_split_vals\<rparr>) 0 = Inr res"
    by (rule solution_extraction
        [where g = ex_globals and m = "T\<lparr>m_vals := ex_split_vals\<rparr>" and Z = 0,
          THEN conjunct2, THEN conjunct1, THEN mp])
      (simp add: ex_split_vals_def f ex_mini_sets)
  then have t: "\<not> isl (demo_extract ex_globals (T\<lparr>m_vals := ex_split_vals\<rparr>) 0)" by auto
  have "\<exists>res. snd ex_demo_run = Inr res"
    by (rule solution_extraction
        [where SolverFactory = ex_factory and g = ex_globals and eps = default_eps
           and ?m1.0 = m and ?m2.0 = T and solver = ex_backend and st = OPTIMAL
           and ?vals3.0 = "\<lambda>x. Some (ex_valuation x)",
          THEN conjunct2, THEN conjunct2, THEN conjunct2, THEN conjunct1, THEN mp])
      (simp add: ex_demo_run_def[symmetric] run ex_get_solver sv)
  then have u: "\<not> isl (snd ex_demo_run)" by auto
  have "\<exists>res. static_extract (T'\<lparr>m_vals := ex_split_vals\<rparr>) 0 = Inr res"
    by (rule solution_extraction
        [where m = "T'\<lparr>m_vals := ex_split_vals\<rparr>" and Z = 0,
          THEN conjunct2, THEN conjunct2, THEN conjunct2, THEN conjunct2, THEN conjunct2,
          THEN conjunct1, THEN mp])
      (simp add: ex_split_vals_def f' ex_bookings_def)
  then have t': "\<not> isl (static_extract (T'\<lparr>m_vals := ex_split_vals\<rparr>) 0)" by auto
  have "\<exists>res. snd ex_static_run = Inr res"
    by (rule solution_extraction
        [where SolverFactory' = ex_factory and bookings_arg = "Some ex_bookings" and nd = 3
           and nr = 2 and capacity_by_day = None and solver_name = "''highs''"
           and tol = default_eps and ?m1'.0 = m' and ?m2'.0 = T' and opt = ex_backend
           and st' = OPTIMAL and vals3' = "\<lambda>x. Some (ex_valuation x)",
          THEN conjunct2, THEN conjunct2, THEN conjunct2, THEN conjunct2, THEN conjunct2,
          THEN conjunct2, THEN conjunct2, THEN mp])
      (simp add: ex_static_run_def[symmetric] run' ex_factory_def sv)
  then have u': "\<not> isl (snd ex_static_run)" by auto
  have i: "fst ex_demo_run ! 1 = T" "fst ex_static_run ! 1 = T'" by (simp_all add: run run')
  show ?thesis unfolding i using l l' r n r' n' t u t' u' e(2) e'(2) by (simp add: run run')
qed

end
